theory Spec2Isabelle
  imports Complex_Main "HOL-Library.Word" "HOL-Library.Signed_Division" "HOL-Library.Multiset"
begin

unbundle bit_operations_syntax

section \<open>Machine types of the C++ sources\<close>

text \<open>
  The age library (\<^verbatim>\<open>edad::fecha_a_dias\<close>, \<^verbatim>\<open>edad::parsear_fecha_iso\<close>,
  \<^verbatim>\<open>edad::calcular\<close>) computes on \<^verbatim>\<open>long long\<close>, \<^verbatim>\<open>unsigned int\<close> and \<^verbatim>\<open>int\<close>.
  They are modelled as 64-bit and 32-bit words: \<open>+\<close>, \<open>-\<close> and \<open>*\<close> wrap around, a
  signed value is read with \<open>sint\<close>, an unsigned one with \<open>uint\<close> or \<open>unat\<close>.
\<close>

type_synonym long_long = "64 word"
type_synonym unsigned_int = "32 word"
type_synonym c_int = "32 word"

text \<open>
  Division of two \<^verbatim>\<open>long long\<close> values truncates towards zero in C++; \<open>sdiv\<close> on
  \<open>int\<close> is that division.
\<close>

definition ll_div :: "long_long \<Rightarrow> long_long \<Rightarrow> long_long" where
  "ll_div a b = word_of_int (sint a sdiv sint b)"

section \<open>Civil date to day count\<close>

text \<open>
  \<^verbatim>\<open>
  long long edad::fecha_a_dias(long long anio, unsigned int mes, unsigned int dia) noexcept {
      anio -= mes <= 2;
      const long long era = (anio >= 0 ? anio : anio - 399) / 400;
      const unsigned anio_era = static_cast<unsigned> (anio - era * 400);
      const unsigned dia_anio = (153 * (mes + (mes > 2 ? -3 : 9)) + 2) / 5 + dia - 1;
      const unsigned dias_era = anio_era * 365 + anio_era / 4 - anio_era / 100 + dia_anio;
      return era * 146097 + static_cast<long long> (dias_era) - 719468;
  }
  \<close>
  The comparisons on \<open>mes\<close> are unsigned, the one on \<open>anio\<close> is signed. In
  \<open>mes + (mes > 2 ? -3 : 9)\<close> the \<^verbatim>\<open>int\<close> operand is converted to \<^verbatim>\<open>unsigned\<close>, so
  \<open>-3\<close> is the word \<open>2^32 - 3\<close> and the sum wraps; the whole of \<open>dia_anio\<close> and
  \<open>dias_era\<close> is unsigned 32-bit arithmetic. The first cast keeps the low 32 bits,
  the second one extends with zeros.
\<close>

definition fecha_a_dias :: "long_long \<Rightarrow> unsigned_int \<Rightarrow> unsigned_int \<Rightarrow> long_long" where
  "fecha_a_dias anio0 mes dia =
    (let anio = anio0 - (if mes \<le> 2 then 1 else 0);
         era = ll_div (if 0 \<le> sint anio then anio else anio - 399) 400;
         anio_era = (ucast (anio - era * 400) :: unsigned_int);
         dia_anio = (153 * (mes + (if mes > 2 then - 3 else 9)) + 2) div 5 + dia - 1;
         dias_era = anio_era * 365 + anio_era div 4 - anio_era div 100 + dia_anio
     in era * 146097 + (ucast dias_era :: long_long) - 719468)"

text \<open>
  The same algorithm as the specification words it, on mathematical integers and with
  floored division: the year is shifted by one for January and February, the era is
  the floor of the shifted year by 400, the day within the year is
  \<open>(153 * (month + (month > 2 ? -3 : 9)) + 2) / 5 + day - 1\<close>, the year within the era
  carries the leap correction \<open>/ 4 - / 100\<close>, and 719468 is subtracted.
\<close>

definition days_from_civil :: "int \<Rightarrow> int \<Rightarrow> int \<Rightarrow> int" where
  "days_from_civil year month day =
    (let y = year - (if month \<le> 2 then 1 else 0);
         era = y div 400;
         yoe = y - era * 400;
         doy = (153 * (month + (if month > 2 then - 3 else 9)) + 2) div 5 + day - 1;
         doe = yoe * 365 + yoe div 4 - yoe div 100 + doy
     in era * 146097 + doe - 719468)"

text \<open>
  The proleptic Gregorian calendar itself: leap years, the length of each month, the
  dates that exist, and the day after a date.
\<close>

definition bisiesto :: "int \<Rightarrow> bool" where
  "bisiesto y = (y mod 4 = 0 \<and> (y mod 100 \<noteq> 0 \<or> y mod 400 = 0))"

definition dias_del_mes :: "int \<Rightarrow> int \<Rightarrow> int" where
  "dias_del_mes y m =
    (if m = 2 then (if bisiesto y then 29 else 28)
     else if m = 4 \<or> m = 6 \<or> m = 9 \<or> m = 11 then 30 else 31)"

definition fecha_civil :: "int \<Rightarrow> int \<Rightarrow> int \<Rightarrow> bool" where
  "fecha_civil y m d = (1 \<le> m \<and> m \<le> 12 \<and> 1 \<le> d \<and> d \<le> dias_del_mes y m)"

definition dia_siguiente :: "int \<times> int \<times> int \<Rightarrow> int \<times> int \<times> int" where
  "dia_siguiente f =
    (case f of (y, m, d) \<Rightarrow>
       if d < dias_del_mes y m then (y, m, d + 1)
       else if m < 12 then (y, m + 1, 1)
       else (y + 1, 1, 1))"

text \<open>
  The years for which no \<^verbatim>\<open>long long\<close> operation of \<open>fecha_a_dias\<close> overflows. Both
  call sites pass a year that was an \<^verbatim>\<open>int\<close>, far inside this range.
\<close>

definition anio_sin_desborde :: "long_long \<Rightarrow> bool" where
  "anio_sin_desborde anio = (- (2 ^ 54) \<le> sint anio \<and> sint anio \<le> 2 ^ 54)"

text \<open>
  Days in the years before year \<open>y + 1\<close>, counted from the year 0 of the proleptic
  calendar: 365 per year and one more per leap year. Used in the proofs only.
\<close>

definition dias_gregorianos :: "int \<Rightarrow> int" where
  "dias_gregorianos y = 365 * y + y div 4 - y div 100 + y div 400"

text \<open>
  Day count of the first day of month \<open>m\<close> of year \<open>y\<close>, relative to the first of
  March of year \<open>y - 1\<close>. Used in the proofs only.
\<close>

definition desplazamiento :: "int \<Rightarrow> int \<Rightarrow> int" where
  "desplazamiento y m =
    (if m = 1 then 306 else if m = 2 then 337
     else 365 + (if bisiesto y then 1 else 0) + (153 * (m - 3) + 2) div 5)"

text \<open>
  \<open>fecha_a_dias\<close> applied to a date given by three integers, its result read as a
  signed number.
\<close>

definition fecha_a_dias_de :: "int \<times> int \<times> int \<Rightarrow> int" where
  "fecha_a_dias_de f =
    (case f of (y, m, d) \<Rightarrow> sint (fecha_a_dias (word_of_int y) (word_of_int m) (word_of_int d)))"

section \<open>Parsing an ISO date\<close>

text \<open>
  The exceptions of the library. \<^verbatim>\<open>parsear_fecha_iso\<close> throws
  \<^verbatim>\<open>std::invalid_argument\<close> with its own message; \<^verbatim>\<open>std::stoi\<close> throws
  \<^verbatim>\<open>std::invalid_argument\<close> or \<^verbatim>\<open>std::out_of_range\<close> with the message \<^verbatim>\<open>stoi\<close>.
\<close>

datatype mensaje = Formato_invalido | Stoi

datatype excepcion = Invalid_argument mensaje | Out_of_range mensaje

text \<open>
  \<^verbatim>\<open>std::stoi(str)\<close> of the C++ standard library, base 10: it calls \<^verbatim>\<open>strtol\<close>, which
  skips leading white space (\<^verbatim>\<open>isspace\<close> in the C locale: space, \<^verbatim>\<open>\t \n \v \f \r\<close>),
  reads an optional sign and then the longest run of decimal digits, and stops at the
  first other character. With no digit read it throws \<^verbatim>\<open>std::invalid_argument\<close>; with a
  value outside \<^verbatim>\<open>int\<close> it throws \<^verbatim>\<open>std::out_of_range\<close>. Characters after the digits
  are ignored.
\<close>

definition es_espacio :: "char \<Rightarrow> bool" where
  "es_espacio c = ((of_char c :: nat) = 32 \<or> (9 \<le> (of_char c :: nat) \<and> (of_char c :: nat) \<le> 13))"

definition es_digito :: "char \<Rightarrow> bool" where
  "es_digito c = (48 \<le> (of_char c :: nat) \<and> (of_char c :: nat) \<le> 57)"

definition valor_digito :: "char \<Rightarrow> int" where
  "valor_digito c = int (of_char c) - 48"

fun valor_decimal :: "int \<Rightarrow> string \<Rightarrow> int" where
  "valor_decimal acc [] = acc"
| "valor_decimal acc (c # cs) = valor_decimal (10 * acc + valor_digito c) cs"

definition stoi :: "string \<Rightarrow> excepcion + c_int" where
  "stoi str =
    (let r = dropWhile es_espacio str;
         negativo = (r \<noteq> [] \<and> hd r = CHR ''-'');
         r' = (if r \<noteq> [] \<and> (hd r = CHR ''-'' \<or> hd r = CHR ''+'') then tl r else r);
         digitos = takeWhile es_digito r';
         v = (if negativo then - valor_decimal 0 digitos else valor_decimal 0 digitos)
     in if digitos = [] then Inl (Invalid_argument Stoi)
        else if v < - 2147483648 \<or> 2147483647 < v then Inl (Out_of_range Stoi)
        else Inr (word_of_int v))"

text \<open>\<^verbatim>\<open>texto.substr(pos, n)\<close>; every call of the source has \<open>pos \<le> texto.size()\<close>.\<close>

definition substr :: "string \<Rightarrow> nat \<Rightarrow> nat \<Rightarrow> string" where
  "substr texto pos n = take n (drop pos texto)"

text \<open>
  \<^verbatim>\<open>
  std::tuple<int, int, int> edad::parsear_fecha_iso(const std::string& texto) {
      if (texto.size() != 10 || texto[4] != '-' || texto[7] != '-') {
          throw std::invalid_argument("Formato invalido; se espera YYYY-MM-DD");
      }
      int anio = std::stoi(texto.substr(0, 4));
      int mes = std::stoi(texto.substr(5, 2));
      int dia = std::stoi(texto.substr(8, 2));
      return {anio, mes, dia};
  }
  \<close>
  An exception of \<^verbatim>\<open>std::stoi\<close> is not caught here and leaves the function.
\<close>

definition parsear_fecha_iso :: "string \<Rightarrow> excepcion + (c_int \<times> c_int \<times> c_int)" where
  "parsear_fecha_iso texto =
    (if length texto \<noteq> 10 \<or> texto ! 4 \<noteq> CHR ''-'' \<or> texto ! 7 \<noteq> CHR ''-''
     then Inl (Invalid_argument Formato_invalido)
     else case stoi (substr texto 0 4) of
            Inl e \<Rightarrow> Inl e
          | Inr anio \<Rightarrow>
              (case stoi (substr texto 5 2) of
                 Inl e \<Rightarrow> Inl e
               | Inr mes \<Rightarrow>
                   (case stoi (substr texto 8 2) of
                      Inl e \<Rightarrow> Inl e
                    | Inr dia \<Rightarrow> Inr (anio, mes, dia))))"

text \<open>
  The format of the specification: exactly ten characters, \<open>-\<close> at positions 4 and 7,
  a decimal digit at each of the eight other positions.
\<close>

definition formato_iso :: "string \<Rightarrow> bool" where
  "formato_iso texto =
    (length texto = 10 \<and> texto ! 4 = CHR ''-'' \<and> texto ! 7 = CHR ''-''
     \<and> list_all (\<lambda>i. es_digito (texto ! i)) [0, 1, 2, 3, 5, 6, 8, 9])"

section \<open>Age in years\<close>

text \<open>
  \<^verbatim>\<open>std::tm\<close>, the broken-down local time that \<^verbatim>\<open>localtime_r\<close> fills from the
  system clock (\<^verbatim>\<open>std::time(nullptr)\<close>).
\<close>

record tm =
  tm_sec :: c_int
  tm_min :: c_int
  tm_hour :: c_int
  tm_mday :: c_int
  tm_mon :: c_int
  tm_year :: c_int
  tm_wday :: c_int
  tm_yday :: c_int
  tm_isdst :: c_int

text \<open>
  \<^verbatim>\<open>
  double edad::calcular(const std::string& fecha_nacimiento) {
      int anio_nac, mes_nac, dia_nac;
      std::tie(anio_nac, mes_nac, dia_nac) = edad::parsear_fecha_iso(fecha_nacimiento);
      const long long dias_nacimiento = edad::fecha_a_dias(anio_nac, mes_nac, dia_nac);
      std::time_t tiempo = std::time(nullptr);
      std::tm fecha_actual{};
      localtime_r(&tiempo, &fecha_actual);
      const long long dias_hoy = edad::fecha_a_dias(
              static_cast<long long> (fecha_actual.tm_year + 1900),
              static_cast<unsigned> (fecha_actual.tm_mon + 1),
              static_cast<unsigned> (fecha_actual.tm_mday));
      constexpr double DIAS_PROMEDIO_ANIO = 365.2425;
      return static_cast<double> (dias_hoy - dias_nacimiento) / DIAS_PROMEDIO_ANIO;
  }
  \<close>
  The function has one parameter, the text. It reads the system clock itself; the
  model takes what the clock answers, the \<open>tm\<close> of the moment of the call, as the
  argument \<open>fecha_actual\<close>. An \<^verbatim>\<open>int\<close> becomes a \<^verbatim>\<open>long long\<close> by sign extension and an
  \<^verbatim>\<open>unsigned\<close> with the same bits. The result is the real number that the \<^verbatim>\<open>double\<close>
  approximates.
\<close>

definition calcular :: "tm \<Rightarrow> string \<Rightarrow> excepcion + real" where
  "calcular fecha_actual fecha_nacimiento =
    (case parsear_fecha_iso fecha_nacimiento of
       Inl e \<Rightarrow> Inl e
     | Inr (anio_nac, mes_nac, dia_nac) \<Rightarrow>
         (let dias_nacimiento = fecha_a_dias (scast anio_nac) mes_nac dia_nac;
              dias_hoy = fecha_a_dias (scast (tm_year fecha_actual + 1900))
                           (tm_mon fecha_actual + 1) (tm_mday fecha_actual)
          in Inr (real_of_int (sint (dias_hoy - dias_nacimiento)) / 365.2425)))"

text \<open>A clock reading at the given local date and time of day.\<close>

definition reloj :: "int \<Rightarrow> int \<Rightarrow> int \<Rightarrow> int \<Rightarrow> tm" where
  "reloj anio mes dia hora =
    \<lparr>tm_sec = 0, tm_min = 0, tm_hour = word_of_int hora, tm_mday = word_of_int dia,
     tm_mon = word_of_int (mes - 1), tm_year = word_of_int (anio - 1900),
     tm_wday = 0, tm_yday = 0, tm_isdst = 0\<rparr>"

section \<open>The producer and the consumers of main.cpp\<close>

text \<open>
  The consumer's test of an age (\<^verbatim>\<open>main.cpp\<close>, and the same lines in the task of the
  second program):
  \<^verbatim>\<open>
  if (!std::isnan(e) && e >= 0.0) {
      int clave = static_cast<int> (e);
      if (clave >= 0 && clave <= 130) { ... }
  \<close>
  The cast truncates towards zero. The quotient that \<open>calcular\<close> returns is never a
  NaN, so that test is always passed. The real quotient and the \<^verbatim>\<open>double\<close> have the same
  integer part here: the quotient is a multiple of \<open>1 / 146097\<close>, so it is an integer or
  at least \<open>1 / 146097\<close> away from one, far more than the rounding of a \<^verbatim>\<open>double\<close>.
\<close>

definition truncar :: "real \<Rightarrow> int" where
  "truncar e = (if 0 \<le> e then \<lfloor>e\<rfloor> else \<lceil>e\<rceil>)"

definition clave_de :: "real \<Rightarrow> int option" where
  "clave_de e =
    (if 0 \<le> e then (let clave = truncar e in if 0 \<le> clave \<and> clave \<le> 130 then Some clave else None)
     else None)"

text \<open>
  Where a thread of the parallel region of \<^verbatim>\<open>main.cpp\<close> stands. One thread runs the
  block \<^verbatim>\<open>#pragma omp single nowait\<close>, the producer, and enters the consumer loop
  after it; the other threads skip the block and enter the loop at once.
  \<^item> \<open>Inicio\<close>: at the \<^verbatim>\<open>single\<close> construct.
  \<^item> \<open>Abriendo\<close>: about to open the file; \<open>Leyendo\<close>: about to call \<^verbatim>\<open>getline\<close>;
    \<open>Empujando p\<close>: about to call \<^verbatim>\<open>cola.push(p)\<close>; \<open>Cediendo_productor p\<close>: the push
    failed, about to yield.
  \<^item> \<open>Extrayendo\<close>: at the top of the loop, about to call \<^verbatim>\<open>cola.pop\<close>;
    \<open>Procesando fecha\<close>: holding the line it popped; \<open>Emplazando clave\<close>: about to
    call \<^verbatim>\<open>try_emplace\<close>; \<open>Visitando clave\<close>: about to call \<^verbatim>\<open>visit\<close> and then delete
    the line.
  \<^item> \<open>Mirando_terminado\<close>: the pop failed, about to load \<^verbatim>\<open>terminado\<close>;
    \<open>Mirando_vacia\<close>: the flag was set, about to call \<^verbatim>\<open>cola.empty()\<close>;
    \<open>Cediendo\<close>: about to yield and retry; \<open>Salido\<close>: after \<^verbatim>\<open>break\<close>, at the end of
    the region.
\<close>

datatype hilo =
    Inicio
  | Abriendo
  | Leyendo
  | Empujando string
  | Cediendo_productor string
  | Extrayendo
  | Procesando string
  | Emplazando int
  | Visitando int
  | Mirando_terminado
  | Mirando_vacia
  | Cediendo
  | Salido

text \<open>
  The shared state of the region: the queue, the map from age to count, the flag, the
  file, and what was written to the standard error. \<open>fichero\<close> is what opening the
  path finds (\<open>None\<close>: it cannot be opened), \<open>archivo\<close> the lines that \<^verbatim>\<open>getline\<close> has
  yet to return. An exception that leaves \<open>calcular\<close> is caught nowhere in
  \<^verbatim>\<open>main\<close>: the program is terminated (\<^verbatim>\<open>std::terminate\<close>), recorded in \<open>abortado\<close>.
  \<open>bitacora\<close> and \<open>consumidas\<close> are not in the program: they record the calls of
  \<open>calcular\<close> that returned, each with the clock it read, and the lines taken off the
  queue and processed.
\<close>

record estado =
  hilos :: "hilo list"
  single_tomado :: bool
  ruta :: string
  fichero :: "string list option"
  archivo :: "string list"
  cola :: "string list"
  mapa :: "int \<rightharpoonup> c_int"
  terminado :: bool
  cerr :: "string list"
  abortado :: "excepcion option"
  bitacora :: "(string \<times> tm) list"
  consumidas :: "string list"

definition poner :: "nat \<Rightarrow> hilo \<Rightarrow> estado \<Rightarrow> estado" where
  "poner i h s = s\<lparr>hilos := (hilos s)[i := h]\<rparr>"

text \<open>
  One atomic step of thread \<open>i\<close>, standing at \<open>h\<close>. \<open>ok\<close> tells whether a push
  succeeds now (it fails when the queue cannot take the item), \<open>ahora\<close> is what the
  clock shows now. The operations of the queue and of the map are taken as atomic:
  \<^verbatim>\<open>pop\<close> fails exactly on the empty queue, \<^verbatim>\<open>try_emplace\<close> inserts 0 where the key is
  missing, \<^verbatim>\<open>visit\<close> increments the value of a key that is present.
\<close>

fun paso_hilo :: "hilo \<Rightarrow> nat \<Rightarrow> bool \<Rightarrow> tm \<Rightarrow> estado \<Rightarrow> estado" where
  "paso_hilo Inicio i ok ahora s =
    (if single_tomado s then poner i Extrayendo s
     else poner i Abriendo (s\<lparr>single_tomado := True\<rparr>))"
| "paso_hilo Abriendo i ok ahora s =
    (case fichero s of
       None \<Rightarrow>
         poner i Extrayendo
           (s\<lparr>cerr := cerr s @ [''No se pudo abrir: '' @ ruta s], terminado := True\<rparr>)
     | Some lineas \<Rightarrow> poner i Leyendo s)"
| "paso_hilo Leyendo i ok ahora s =
    (case archivo s of
       [] \<Rightarrow> poner i Extrayendo (s\<lparr>terminado := True\<rparr>)
     | linea # resto \<Rightarrow> poner i (Empujando linea) (s\<lparr>archivo := resto\<rparr>))"
| "paso_hilo (Empujando p) i ok ahora s =
    (if ok then poner i Leyendo (s\<lparr>cola := cola s @ [p]\<rparr>)
     else poner i (Cediendo_productor p) s)"
| "paso_hilo (Cediendo_productor p) i ok ahora s = poner i (Empujando p) s"
| "paso_hilo Extrayendo i ok ahora s =
    (case cola s of
       [] \<Rightarrow> poner i Mirando_terminado s
     | fecha # resto \<Rightarrow> poner i (Procesando fecha) (s\<lparr>cola := resto\<rparr>))"
| "paso_hilo (Procesando fecha) i ok ahora s =
    (if fecha = [] then poner i Extrayendo (s\<lparr>consumidas := consumidas s @ [fecha]\<rparr>)
     else case calcular ahora fecha of
            Inl e \<Rightarrow> s\<lparr>abortado := Some e\<rparr>
          | Inr e \<Rightarrow>
              poner i (case clave_de e of None \<Rightarrow> Extrayendo | Some clave \<Rightarrow> Emplazando clave)
                (s\<lparr>bitacora := bitacora s @ [(fecha, ahora)],
                   consumidas := consumidas s @ [fecha]\<rparr>))"
| "paso_hilo (Emplazando clave) i ok ahora s =
    poner i (Visitando clave)
      (s\<lparr>mapa := (case mapa s clave of None \<Rightarrow> (mapa s)(clave \<mapsto> 0) | Some v \<Rightarrow> mapa s)\<rparr>)"
| "paso_hilo (Visitando clave) i ok ahora s =
    poner i Extrayendo
      (s\<lparr>mapa := (case mapa s clave of None \<Rightarrow> mapa s | Some v \<Rightarrow> (mapa s)(clave \<mapsto> v + 1))\<rparr>)"
| "paso_hilo Mirando_terminado i ok ahora s =
    (if terminado s then poner i Mirando_vacia s else poner i Cediendo s)"
| "paso_hilo Mirando_vacia i ok ahora s =
    (if cola s = [] then poner i Salido s else poner i Cediendo s)"
| "paso_hilo Cediendo i ok ahora s = poner i Extrayendo s"
| "paso_hilo Salido i ok ahora s = s"

text \<open>
  An event names the thread that takes the next step and gives the answers of the
  environment. A run is a list of events: every interleaving of the threads is a run.
  After \<^verbatim>\<open>std::terminate\<close> nothing moves.
\<close>

type_synonym evento = "nat \<times> bool \<times> tm"

definition paso :: "evento \<Rightarrow> estado \<Rightarrow> estado" where
  "paso ev s =
    (case ev of (i, ok, ahora) \<Rightarrow>
       if abortado s = None \<and> i < length (hilos s) then paso_hilo (hilos s ! i) i ok ahora s
       else s)"

definition ejecutar :: "evento list \<Rightarrow> estado \<Rightarrow> estado" where
  "ejecutar evs s = foldl (\<lambda>s ev. paso ev s) s evs"

definition lineas_de :: "string list option \<Rightarrow> string list" where
  "lineas_de f = (case f of None \<Rightarrow> [] | Some lineas \<Rightarrow> lineas)"

definition inicial :: "nat \<Rightarrow> string \<Rightarrow> string list option \<Rightarrow> estado" where
  "inicial n r f =
    \<lparr>hilos = replicate n Inicio, single_tomado = False, ruta = r, fichero = f,
     archivo = lineas_de f, cola = [], mapa = Map.empty, terminado = False, cerr = [],
     abortado = None, bitacora = [], consumidas = []\<rparr>"

text \<open>The region is over when every thread has left its loop.\<close>

definition hecho :: "estado \<Rightarrow> bool" where
  "hecho s = (abortado s = None \<and> hilos s \<noteq> [] \<and> list_all (\<lambda>h. h = Salido) (hilos s))"

text \<open>
  The sum of the counts of the map over the ages 0 to 130, the only keys the consumers
  use, and whether the consumer's own test lets a call of \<open>calcular\<close> through to the
  map (\<open>contada\<close>, the program's side of the count).
\<close>

definition cuenta_de :: "(int \<rightharpoonup> c_int) \<Rightarrow> int \<Rightarrow> int" where
  "cuenta_de m k = (case m k of None \<Rightarrow> 0 | Some v \<Rightarrow> sint v)"

definition total :: "(int \<rightharpoonup> c_int) \<Rightarrow> int" where
  "total m = (\<Sum>k = 0..130. cuenta_de m k)"

definition contada :: "string \<times> tm \<Rightarrow> bool" where
  "contada c =
    (case c of (linea, ahora) \<Rightarrow>
       (case calcular ahora linea of Inl e \<Rightarrow> False | Inr e \<Rightarrow> clave_de e \<noteq> None))"

text \<open>
  The lines that the specification counts, in its words and not in the program's: the
  age computation yields a valid age (not a NaN, at least 0) whose truncated integer
  part lies in \<open>[0, 130]\<close>, that is, an age \<open>e\<close> with \<open>0 \<le> e < 131\<close>. The predicate does
  not use the consumer's test \<open>clave_de\<close>.
\<close>

definition edad_valida_en_rango :: "string \<times> tm \<Rightarrow> bool" where
  "edad_valida_en_rango c =
    (case c of (linea, ahora) \<Rightarrow>
       (case calcular ahora linea of Inl e \<Rightarrow> False | Inr e \<Rightarrow> 0 \<le> e \<and> e < 131))"

text \<open>
  \<^verbatim>\<open>main\<close> of \<^verbatim>\<open>main.cpp\<close>, given the program name, the other arguments, the file
  system, the number of threads and a run of the region. With no argument it prints
  the credits. Otherwise, when the run ends the region, it prints one line per key of
  the map (here by ascending key; the program prints them in the order of the map) and
  returns \<^verbatim>\<open>EXIT_SUCCESS\<close>; when the run ends in \<^verbatim>\<open>std::terminate\<close>, the process is
  aborted. A run that does neither is not a whole execution: \<open>None\<close>.
\<close>

datatype linea_salida = Creditos string | Ocurrencias int int

datatype fin = Exit_success | Terminate excepcion

record resultado =
  salida :: "linea_salida list"
  errores :: "string list"
  codigo :: fin

definition emitir :: "(int \<rightharpoonup> c_int) \<Rightarrow> linea_salida list" where
  "emitir m =
    concat (map (\<lambda>k. case m k of None \<Rightarrow> [] | Some v \<Rightarrow> [Ocurrencias k (sint v)]) [0..130])"

definition main :: "string \<Rightarrow> string list \<Rightarrow> (string \<Rightarrow> string list option) \<Rightarrow> nat
    \<Rightarrow> evento list \<Rightarrow> resultado option" where
  "main programa args abrir n evs =
    (case args of
       [] \<Rightarrow> Some \<lparr>salida = [Creditos programa], errores = [], codigo = Exit_success\<rparr>
     | r # _ \<Rightarrow>
         (let s = ejecutar evs (inicial n r (abrir r)) in
          case abortado s of
            Some e \<Rightarrow> Some \<lparr>salida = [], errores = cerr s, codigo = Terminate e\<rparr>
          | None \<Rightarrow>
              if hecho s
              then Some \<lparr>salida = emitir (mapa s), errores = cerr s, codigo = Exit_success\<rparr>
              else None))"

text \<open>What the invariants of the region count, thread by thread.\<close>

definition productor :: "hilo \<Rightarrow> nat" where
  "productor h =
    (case h of Abriendo \<Rightarrow> 1 | Leyendo \<Rightarrow> 1 | Empujando p \<Rightarrow> 1 | Cediendo_productor p \<Rightarrow> 1
     | _ \<Rightarrow> 0)"

definition en_mano :: "hilo \<Rightarrow> string list" where
  "en_mano h =
    (case h of Empujando p \<Rightarrow> [p] | Cediendo_productor p \<Rightarrow> [p] | Procesando fecha \<Rightarrow> [fecha]
     | _ \<Rightarrow> [])"

definition pendiente :: "hilo \<Rightarrow> nat" where
  "pendiente h = (case h of Emplazando k \<Rightarrow> 1 | Visitando k \<Rightarrow> 1 | _ \<Rightarrow> 0)"

text \<open>
  The invariant of the termination protocol: at most one thread is in the producer's
  block, and only after the \<^verbatim>\<open>single\<close> was taken; once the flag is set the producer
  has left its block and the file is exhausted; a consumer checks the queue only after
  it saw the flag; and a consumer has left only with the flag set and the queue empty.
\<close>

definition n_productores :: "estado \<Rightarrow> nat" where
  "n_productores s = sum_list (map productor (hilos s))"

definition inv_protocolo :: "estado \<Rightarrow> bool" where
  "inv_protocolo s =
    (n_productores s \<le> 1
     \<and> (\<not> single_tomado s \<longrightarrow> n_productores s = 0 \<and> \<not> terminado s)
     \<and> (terminado s \<longrightarrow> n_productores s = 0 \<and> archivo s = [])
     \<and> (fichero s = None \<longrightarrow> archivo s = [])
     \<and> (Mirando_vacia \<in> set (hilos s) \<longrightarrow> terminado s)
     \<and> (Salido \<in> set (hilos s) \<longrightarrow> terminado s \<and> cola s = []))"

text \<open>The run of one thread over a file of one empty line, up to its check of the queue.\<close>

definition corrida_vacia :: "evento list" where
  "corrida_vacia = replicate 9 (0, True, reloj 2024 11 1 0)"

text \<open>
  The invariants of the counts. Every line of the file is in exactly one place: still
  in the file, in the hand of a thread (read and not yet pushed, or popped and not yet
  processed), in the queue, or processed. Every processed line that is not empty has
  one entry in the log. The total of the map, plus the increments that a thread has
  decided and not yet done, is the number of log entries with an age in range; the map
  holds keys from 0 to 130 with counts that are not negative.
\<close>

definition manos :: "estado \<Rightarrow> string multiset" where
  "manos s = mset (concat (map en_mano (hilos s)))"

definition n_pendientes :: "estado \<Rightarrow> nat" where
  "n_pendientes s = sum_list (map pendiente (hilos s))"

definition inv_lineas :: "string list \<Rightarrow> estado \<Rightarrow> bool" where
  "inv_lineas L s =
    (abortado s = None \<longrightarrow>
       mset (archivo s) + manos s + mset (cola s) + mset (consumidas s) = mset L)"

definition inv_bitacora :: "estado \<Rightarrow> bool" where
  "inv_bitacora s =
    (abortado s = None \<longrightarrow> map fst (bitacora s) = filter (\<lambda>l. l \<noteq> []) (consumidas s))"

definition inv_mapa :: "estado \<Rightarrow> bool" where
  "inv_mapa s =
    (abortado s = None \<longrightarrow>
       total (mapa s) + int (n_pendientes s) = int (length (filter contada (bitacora s)))
     \<and> (\<forall>k v. mapa s k = Some v \<longrightarrow> 0 \<le> k \<and> k \<le> 130 \<and> 0 \<le> sint v)
     \<and> (\<forall>k. Emplazando k \<in> set (hilos s) \<or> Visitando k \<in> set (hilos s) \<longrightarrow> 0 \<le> k \<and> k \<le> 130)
     \<and> (\<forall>k. Visitando k \<in> set (hilos s) \<longrightarrow> mapa s k \<noteq> None))"

definition inv_cuentas :: "string list \<Rightarrow> estado \<Rightarrow> bool" where
  "inv_cuentas L s = (inv_lineas L s \<and> inv_bitacora s \<and> inv_mapa s)"

text \<open>Every call of \<open>calcular\<close> of a run read the same clock.\<close>

definition reloj_fijo :: "tm \<Rightarrow> evento list \<Rightarrow> bool" where
  "reloj_fijo hoy evs = list_all (\<lambda>ev. snd (snd ev) = hoy) evs"

text \<open>
  A run of two threads over a file of one line: thread 0 produces, thread 1 consumes
  the line, and thread 0 leaves its loop before thread 1 has counted it.
\<close>

definition corrida_dos :: "evento list" where
  "corrida_dos =
    map (\<lambda>i. (i, True, reloj 2024 11 1 0)) [0, 1, 1, 1, 0, 0, 0, 1, 1, 0, 1, 0, 0, 0, 1, 1, 1, 1, 1]"

definition edad_ejemplo :: real where
  "edad_ejemplo = 7305 / 365.2425"

text \<open>
  The invariant of a run on a file that cannot be opened: nothing is queued, counted
  or thrown, and the diagnostic is written once, when the flag is set.
\<close>

definition inv_sin_fichero :: "estado \<Rightarrow> bool" where
  "inv_sin_fichero s =
    (fichero s = None \<and> archivo s = [] \<and> cola s = [] \<and> mapa s = Map.empty \<and> abortado s = None
     \<and> cerr s = (if terminado s then [''No se pudo abrir: '' @ ruta s] else [])
     \<and> (terminado s \<longrightarrow> single_tomado s)
     \<and> (Abriendo \<in> set (hilos s) \<longrightarrow> \<not> terminado s)
     \<and> (Salido \<in> set (hilos s) \<longrightarrow> terminado s)
     \<and> (Mirando_vacia \<in> set (hilos s) \<longrightarrow> terminado s)
     \<and> list_all (\<lambda>h. h = Inicio \<or> h = Abriendo \<or> h = Extrayendo \<or> h = Mirando_terminado
          \<or> h = Mirando_vacia \<or> h = Cediendo \<or> h = Salido) (hilos s))"

section \<open>The second program: one task per line\<close>

text \<open>
  The second program (the \<^verbatim>\<open>main\<close> after the header in \<^verbatim>\<open>Edad.h\<close>) has no queue: the
  thread of the \<^verbatim>\<open>single\<close> block creates one task per line and waits for them
  (\<^verbatim>\<open>taskwait\<close>), and the threads of the team run the tasks.
  \<^verbatim>\<open>
  while (std::getline(archivo, linea)) {
  #pragma omp task firstprivate(linea) shared(histograma)
      {
          if (!linea.empty()) {
              std::string *p = new std::string(std::move(linea));
              const double edad_decimal = edad::calcular(*p);
              const bool edad_valida = (!std::isnan(edad_decimal) && edad_decimal >= 0.0);
              if (edad_valida) {
                  const int clave = static_cast<int> (edad_decimal);
                  const bool dentro_rango = (clave >= 0 && clave <= 130);
                  if (dentro_rango) {
                      histograma[static_cast<std::size_t> (clave)].fetch_add(1, std::memory_order_relaxed);
                  }
              }
          }
      }
  }
  #pragma omp taskwait
  \<close>
  A task shares nothing but the array of 131 atomic counters, so its thread does not
  matter: the state holds the tasks created and not yet started (\<open>tareas\<close>) and the
  increments that a started task has decided and not yet done (\<open>sumas\<close>). Any number of
  tasks may be in progress at once, which covers every number of threads.
\<close>

record estado2 =
  abierto :: bool
  fichero2 :: "string list option"
  ruta2 :: string
  archivo2 :: "string list"
  tareas :: "string list"
  sumas :: "nat list"
  histograma :: "c_int list"
  cerr2 :: "string list"
  abortado2 :: "excepcion option"
  bitacora2 :: "(string \<times> tm) list"
  consumidas2 :: "string list"

text \<open>
  The events: the producer opens the file; the producer reads a line and creates its
  task; a thread starts the pending task number \<open>j\<close> and runs it up to its increment,
  reading the clock; a thread does the pending increment number \<open>j\<close> (\<^verbatim>\<open>fetch_add\<close>,
  which wraps around).
\<close>

datatype evento2 = Abrir | Crear | Tomar nat tm | Sumar nat

definition quitar :: "nat \<Rightarrow> 'a list \<Rightarrow> 'a list" where
  "quitar j xs = take j xs @ drop (Suc j) xs"

definition tomar :: "nat \<Rightarrow> tm \<Rightarrow> estado2 \<Rightarrow> estado2" where
  "tomar j ahora s =
    (let linea = tareas s ! j;
         s' = s\<lparr>tareas := quitar j (tareas s), consumidas2 := consumidas2 s @ [linea]\<rparr>
     in if linea = [] then s'
        else case calcular ahora linea of
               Inl e \<Rightarrow> s\<lparr>abortado2 := Some e\<rparr>
             | Inr e \<Rightarrow>
                 (case clave_de e of
                    None \<Rightarrow> s'\<lparr>bitacora2 := bitacora2 s @ [(linea, ahora)]\<rparr>
                  | Some clave \<Rightarrow>
                      s'\<lparr>bitacora2 := bitacora2 s @ [(linea, ahora)],
                         sumas := sumas s @ [nat clave]\<rparr>))"

definition paso2 :: "evento2 \<Rightarrow> estado2 \<Rightarrow> estado2" where
  "paso2 ev s =
    (if abortado2 s = None then
       (case ev of
          Abrir \<Rightarrow>
            if abierto s then s
            else (case fichero2 s of
                    None \<Rightarrow>
                      s\<lparr>abierto := True,
                        cerr2 := cerr2 s @ [''No se pudo abrir el archivo: '' @ ruta2 s]\<rparr>
                  | Some lineas \<Rightarrow> s\<lparr>abierto := True\<rparr>)
        | Crear \<Rightarrow>
            (case archivo2 s of
               [] \<Rightarrow> s
             | linea # resto \<Rightarrow>
                 if abierto s then s\<lparr>archivo2 := resto, tareas := tareas s @ [linea]\<rparr> else s)
        | Tomar j ahora \<Rightarrow> if j < length (tareas s) then tomar j ahora s else s
        | Sumar j \<Rightarrow>
            if j < length (sumas s)
            then s\<lparr>sumas := quitar j (sumas s),
                   histograma := (histograma s)[sumas s ! j := histograma s ! (sumas s ! j) + 1]\<rparr>
            else s)
     else s)"

definition ejecutar2 :: "evento2 list \<Rightarrow> estado2 \<Rightarrow> estado2" where
  "ejecutar2 evs s = foldl (\<lambda>s ev. paso2 ev s) s evs"

definition inicial2 :: "string \<Rightarrow> string list option \<Rightarrow> estado2" where
  "inicial2 r f =
    \<lparr>abierto = False, fichero2 = f, ruta2 = r, archivo2 = lineas_de f, tareas = [], sumas = [],
     histograma = replicate 131 0, cerr2 = [], abortado2 = None, bitacora2 = [],
     consumidas2 = []\<rparr>"

text \<open>
  The region is over when the file was opened and read to its end and every task has
  finished: the \<^verbatim>\<open>taskwait\<close> and the barriers at the end of the \<^verbatim>\<open>single\<close> block and of
  the region let no thread through before.
\<close>

definition hecho2 :: "estado2 \<Rightarrow> bool" where
  "hecho2 s = (abortado2 s = None \<and> abierto s \<and> archivo2 s = [] \<and> tareas s = [] \<and> sumas s = [])"

definition total2 :: "c_int list \<Rightarrow> int" where
  "total2 h = sum_list (map sint h)"

definition emitir2 :: "c_int list \<Rightarrow> linea_salida list" where
  "emitir2 h = map (\<lambda>k. Ocurrencias (int k) (sint (h ! k))) (filter (\<lambda>k. h ! k \<noteq> 0) [0..<131])"

definition main2 :: "string \<Rightarrow> string list \<Rightarrow> (string \<Rightarrow> string list option) \<Rightarrow> evento2 list
    \<Rightarrow> resultado option" where
  "main2 programa args abrir evs =
    (case args of
       [] \<Rightarrow> Some \<lparr>salida = [Creditos programa], errores = [], codigo = Exit_success\<rparr>
     | r # _ \<Rightarrow>
         (let s = ejecutar2 evs (inicial2 r (abrir r)) in
          case abortado2 s of
            Some e \<Rightarrow> Some \<lparr>salida = [], errores = cerr2 s, codigo = Terminate e\<rparr>
          | None \<Rightarrow>
              if hecho2 s
              then Some \<lparr>salida = emitir2 (histograma s), errores = cerr2 s, codigo = Exit_success\<rparr>
              else None))"

definition inv2 :: "string list \<Rightarrow> estado2 \<Rightarrow> bool" where
  "inv2 L s =
    (abortado2 s = None \<longrightarrow>
       mset (archivo2 s) + mset (tareas s) + mset (consumidas2 s) = mset L
     \<and> map fst (bitacora2 s) = filter (\<lambda>l. l \<noteq> []) (consumidas2 s)
     \<and> total2 (histograma s) + int (length (sumas s)) = int (length (filter contada (bitacora2 s)))
     \<and> length (histograma s) = 131
     \<and> list_all (\<lambda>v. 0 \<le> sint v) (histograma s)
     \<and> list_all (\<lambda>k. k < 131) (sumas s))"

section \<open>Words and integers\<close>

lemma sint_wi64:
  "- 9223372036854775808 \<le> k \<Longrightarrow> k < 9223372036854775808 \<Longrightarrow> sint (word_of_int k :: 64 word) = k"
  by (simp add: sint_sbintrunc' signed_take_bit_int_eq_self)

lemma uint_wi32: "0 \<le> k \<Longrightarrow> k < 4294967296 \<Longrightarrow> uint (word_of_int k :: 32 word) = k"
  by (simp add: uint_word_of_int)

lemma div_wi32:
  "0 \<le> a \<Longrightarrow> a < 4294967296 \<Longrightarrow> 0 \<le> b \<Longrightarrow> b < 4294967296 \<Longrightarrow>
   (word_of_int a :: 32 word) div word_of_int b = word_of_int (a div b)"
  by (simp add: word_div_def uint_wi32)

lemma ucast_64_32_wi: "(ucast (word_of_int k :: 64 word) :: 32 word) = word_of_int k"
  by (simp add: ucast_down_wi is_down)

lemma ucast_32_64_wi:
  "0 \<le> k \<Longrightarrow> k < 4294967296 \<Longrightarrow> (ucast (word_of_int k :: 32 word) :: 64 word) = word_of_int k"
  by (simp add: ucast_eq uint_wi32)

section \<open>Integer arithmetic of the era algorithm\<close>

lemma div4_era: "(y::int) div 4 = 100 * (y div 400) + (y mod 400) div 4"
proof -
  have "y = 400 * (y div 400) + y mod 400" by simp
  then have "y div 4 = (4 * (100 * (y div 400)) + y mod 400) div 4" by simp
  also have "\<dots> = 100 * (y div 400) + (y mod 400) div 4"
    by (simp only: div_mult_self2[of 4] add.commute)
  finally show ?thesis .
qed

lemma div100_era: "(y::int) div 100 = 4 * (y div 400) + (y mod 400) div 100"
proof -
  have "y = 400 * (y div 400) + y mod 400" by simp
  then have "y div 100 = (100 * (4 * (y div 400)) + y mod 400) div 100" by simp
  also have "\<dots> = 4 * (y div 400) + (y mod 400) div 100"
    by (simp only: div_mult_self2[of 100] add.commute)
  finally show ?thesis .
qed

lemma era_cerrada:
  "(y div 400) * 146097 + (y - y div 400 * 400) * 365 + (y - y div 400 * 400) div 4
     - (y - y div 400 * 400) div 100 = dias_gregorianos y"
proof -
  have r: "y - y div 400 * 400 = y mod 400" by (simp add: minus_div_mult_eq_mod)
  have "y = 400 * (y div 400) + y mod 400" by simp
  then show ?thesis
    unfolding r dias_gregorianos_def using div4_era[of y] div100_era[of y] by linarith
qed

text \<open>The truncating division of the source, after its adjustment of negative years, is the floor.\<close>

lemma era_floor: "(if 0 \<le> y then y else y - 399) sdiv 400 = (y::int) div 400"
  by (auto simp: signed_divide_int_def sgn_if)

lemma div_step:
  fixes y n :: int
  assumes "0 < n"
  shows "y div n - (y - 1) div n = (if y mod n = 0 then 1 else 0)"
proof (cases "y mod n = 0")
  case True
  have "y = y div n * n" using True by (simp add: mod_eq_0_iff_dvd)
  then have e: "y - 1 = (n - 1) + (y div n - 1) * n" by (simp add: algebra_simps)
  have "(y - 1) div n = ((n - 1) + (y div n - 1) * n) div n" by (simp only: e)
  also have "\<dots> = (y div n - 1) + (n - 1) div n"
    using assms by (simp only: div_mult_self1)
  also have "(n - 1) div n = 0" using assms by simp
  finally show ?thesis using True by simp
next
  case False
  have r: "0 \<le> y mod n - 1" "y mod n - 1 < n"
    using False assms pos_mod_sign[of n y] pos_mod_bound[of n y] by linarith+
  have e: "y - 1 = (y mod n - 1) + (y div n) * n" by (simp add: algebra_simps)
  have "(y - 1) div n = ((y mod n - 1) + (y div n) * n) div n" by (simp only: e)
  also have "\<dots> = y div n + (y mod n - 1) div n"
    using assms by (simp only: div_mult_self1)
  also have "(y mod n - 1) div n = 0" using r by simp
  finally show ?thesis using False by simp
qed

lemma mod400_100: "(y::int) mod 400 = 0 \<Longrightarrow> y mod 100 = 0"
  unfolding mod_eq_0_iff_dvd by (rule dvd_trans[of 100 400]) simp_all

lemma mod100_4: "(y::int) mod 100 = 0 \<Longrightarrow> y mod 4 = 0"
  unfolding mod_eq_0_iff_dvd by (rule dvd_trans[of 4 100]) simp_all

lemma dias_gregorianos_paso:
  "dias_gregorianos y - dias_gregorianos (y - 1) = 365 + (if bisiesto y then 1 else 0)"
proof -
  define a where "a = y div 4 - (y - 1) div 4"
  define b where "b = y div 100 - (y - 1) div 100"
  define c where "c = y div 400 - (y - 1) div 400"
  have a: "a = (if y mod 4 = 0 then 1 else 0)" unfolding a_def by (rule div_step) simp
  have b: "b = (if y mod 100 = 0 then 1 else 0)" unfolding b_def by (rule div_step) simp
  have c: "c = (if y mod 400 = 0 then 1 else 0)" unfolding c_def by (rule div_step) simp
  have e: "dias_gregorianos y - dias_gregorianos (y - 1) = 365 + a - b + c"
    unfolding dias_gregorianos_def a_def b_def c_def by (simp add: algebra_simps)
  have "a - b + c = (if bisiesto y then 1 else 0)"
  proof (cases "y mod 400 = 0")
    case True
    then have "y mod 100 = 0" by (rule mod400_100)
    then have "y mod 4 = 0" by (rule mod100_4)
    with True \<open>y mod 100 = 0\<close> show ?thesis by (simp add: a b c bisiesto_def)
  next
    case F4: False
    show ?thesis
    proof (cases "y mod 100 = 0")
      case True
      then have "y mod 4 = 0" by (rule mod100_4)
      with True F4 show ?thesis by (simp add: a b c bisiesto_def)
    next
      case False
      with F4 show ?thesis by (simp add: a b c bisiesto_def)
    qed
  qed
  with e show ?thesis by simp
qed

lemma dias_gregorianos_mono:
  assumes "y1 < y2"
  shows "dias_gregorianos y1 < dias_gregorianos y2"
proof -
  have a: "y1 div 4 \<le> y2 div 4" using assms by (intro zdiv_mono1) simp_all
  have b: "y2 div 100 - y1 div 100 \<le> y2 - y1" using assms by linarith
  have c: "y1 div 400 \<le> y2 div 400" using assms by (intro zdiv_mono1) simp_all
  show ?thesis unfolding dias_gregorianos_def using a b c assms by linarith
qed

lemma days_from_civil_gregorianos:
  "days_from_civil y m d =
     dias_gregorianos (y - (if m \<le> 2 then 1 else 0))
       + (153 * (m + (if m > 2 then - 3 else 9)) + 2) div 5 + d - 1 - 719468"
  using era_cerrada[of "y - (if m \<le> 2 then 1 else 0)"]
  by (simp add: days_from_civil_def Let_def)

lemma mes_casos:
  "1 \<le> m \<Longrightarrow> m \<le> 12 \<Longrightarrow>
   (m::int) = 1 \<or> m = 2 \<or> m = 3 \<or> m = 4 \<or> m = 5 \<or> m = 6 \<or> m = 7 \<or> m = 8 \<or> m = 9
     \<or> m = 10 \<or> m = 11 \<or> m = 12"
  by arith

lemma days_from_civil_desplazamiento: "1 \<le> m \<Longrightarrow>
  days_from_civil y m d = dias_gregorianos (y - 1) + desplazamiento y m + d - 1 - 719468"
  using dias_gregorianos_paso[of y] by (auto simp: days_from_civil_gregorianos desplazamiento_def)

lemma desp_suc: "1 \<le> m \<Longrightarrow> m < 12 \<Longrightarrow> desplazamiento y (m + 1) = desplazamiento y m + dias_del_mes y m"
  using mes_casos[of m] by (auto simp: desplazamiento_def dias_del_mes_def)

lemma desp_12: "desplazamiento y 12 + 31 = 365 + (if bisiesto y then 1 else 0) + 306"
  by (simp add: desplazamiento_def)

lemma days_from_civil_siguiente:
  assumes "fecha_civil y m d"
  shows "(case dia_siguiente (y, m, d) of (y', m', d') \<Rightarrow> days_from_civil y' m' d') = days_from_civil y m d + 1"
proof -
  have m: "1 \<le> m" "m \<le> 12" and d: "1 \<le> d" "d \<le> dias_del_mes y m"
    using assms by (simp_all add: fecha_civil_def)
  show ?thesis
  proof (cases "d < dias_del_mes y m")
    case True
    then show ?thesis using m by (simp add: dia_siguiente_def days_from_civil_desplazamiento)
  next
    case False
    then have dd: "d = dias_del_mes y m" using d by simp
    show ?thesis
    proof (cases "m < 12")
      case True
      then show ?thesis using m dd desp_suc[of m y] by (simp add: dia_siguiente_def days_from_civil_desplazamiento)
    next
      case False
      then have m12: "m = 12" using m by simp
      have "dias_gregorianos (y + 1 - 1) - dias_gregorianos (y - 1) = 365 + (if bisiesto y then 1 else 0)"
        using dias_gregorianos_paso[of y] by simp
      then show ?thesis using dd desp_12[of y] unfolding m12
        by (simp add: dia_siguiente_def days_from_civil_desplazamiento dias_del_mes_def desplazamiento_def)
    qed
  qed
qed

lemma siguiente_civil:
  assumes "fecha_civil y m d"
  shows "case dia_siguiente (y, m, d) of (y', m', d') \<Rightarrow> fecha_civil y' m' d'"
  using assms by (auto simp: fecha_civil_def dia_siguiente_def dias_del_mes_def)

lemma desp_mono_debil:
  assumes "1 \<le> a" "a \<le> b"
  shows "desplazamiento y a \<le> desplazamiento y b"
proof -
  have k: "3 \<le> c \<Longrightarrow> 0 \<le> (153 * (c - 3) + 2) div 5" for c :: int
    by (simp add: pos_imp_zdiv_nonneg_iff)
  have mo: "3 \<le> a \<Longrightarrow> (153 * (a - 3) + 2) div 5 \<le> (153 * (b - 3) + 2) div 5"
    using assms by (intro zdiv_mono1) simp_all
  consider "a = 1" | "a = 2" | "3 \<le> a" using assms by linarith
  then show ?thesis
  proof cases
    case 1
    then show ?thesis using assms k[of b] by (auto simp: desplazamiento_def)
  next
    case 2
    then show ?thesis using assms k[of b] by (auto simp: desplazamiento_def)
  next
    case 3
    then show ?thesis using assms mo by (auto simp: desplazamiento_def)
  qed
qed

lemma desp_mono:
  assumes "1 \<le> m1" "m1 < m2" "m2 \<le> 12"
  shows "desplazamiento y m1 + dias_del_mes y m1 \<le> desplazamiento y m2"
proof -
  have "desplazamiento y m1 + dias_del_mes y m1 = desplazamiento y (m1 + 1)"
    using assms by (simp add: desp_suc)
  also have "\<dots> \<le> desplazamiento y m2"
    using assms by (intro desp_mono_debil) simp_all
  finally show ?thesis .
qed

section \<open>The source function computes the era algorithm\<close>

lemma fecha_a_dias_refina:
  fixes anio :: long_long and mes dia :: unsigned_int
  assumes r: "anio_sin_desborde anio" and m: "mes \<le> 99" and d: "1 \<le> dia" "dia \<le> 99"
  shows "sint (fecha_a_dias anio mes dia) = days_from_civil (sint anio) (uint mes) (uint dia)"
proof -
  define y where "y = sint anio"
  define mi where "mi = uint mes"
  define di where "di = uint dia"
  have yb: "- 18014398509481984 \<le> y" "y \<le> 18014398509481984"
    using r by (simp_all add: anio_sin_desborde_def y_def)
  have mb: "0 \<le> mi" "mi \<le> 99" using m by (simp_all add: mi_def word_le_def)
  have db: "1 \<le> di" "di \<le> 99" using d by (simp_all add: di_def word_le_def)
  have anio: "anio = word_of_int y" by (simp add: y_def)
  have mes: "mes = word_of_int mi" by (simp add: mi_def)
  have dia: "dia = word_of_int di" by (simp add: di_def)
  have c2: "(mes \<le> 2) = (mi \<le> 2)" "(mes > 2) = (mi > 2)"
    by (simp_all add: mi_def word_le_def word_less_def)
  define b :: int where "b = (if mi \<le> 2 then 1 else 0)"
  define y1 where "y1 = y - b"
  have y1b: "- 18014398509481985 \<le> y1" "y1 \<le> 18014398509481984"
    using yb by (simp_all add: y1_def b_def)
  have a1: "anio - (if mes \<le> 2 then 1 else 0) = word_of_int y1"
    by (simp add: anio c2 y1_def b_def)
  have s1: "sint (word_of_int y1 :: 64 word) = y1"
    using y1b by (intro sint_wi64) simp_all
  define q where "q = y1 div 400"
  have qb: "- 45035996273705 \<le> q" "q \<le> 45035996273705"
    using y1b by (simp_all add: q_def)
  have s399: "sint (word_of_int y1 - 399 :: 64 word) = y1 - 399"
  proof -
    have h: "(word_of_int y1 - 399 :: 64 word) = word_of_int (y1 - 399)" by simp
    show ?thesis unfolding h using y1b by (intro sint_wi64) simp_all
  qed
  have era: "ll_div (if 0 \<le> sint (word_of_int y1 :: 64 word) then word_of_int y1
                     else word_of_int y1 - 399) 400 = word_of_int q"
    using era_floor[of y1] by (auto simp: ll_div_def s1 s399 q_def split: if_splits)
  define rr where "rr = y1 - q * 400"
  have rrb: "0 \<le> rr" "rr \<le> 399"
    by (simp_all add: rr_def q_def minus_div_mult_eq_mod)
  have ae: "(ucast (word_of_int y1 - word_of_int q * 400 :: 64 word) :: 32 word) = word_of_int rr"
  proof -
    have h: "(word_of_int y1 - word_of_int q * 400 :: 64 word) = word_of_int rr"
      by (simp add: rr_def)
    show ?thesis unfolding h by (rule ucast_64_32_wi)
  qed
  define mp where "mp = mi + (if mi > 2 then - 3 else 9)"
  have mpb: "0 \<le> mp" "mp \<le> 96" using mb by (auto simp: mp_def)
  have mpw: "mes + (if mes > 2 then - 3 else 9) = word_of_int mp"
    unfolding c2 by (simp add: mes mp_def)
  define t where "t = (153 * mp + 2) div 5"
  have tb: "0 \<le> t" "t \<le> 2938" using mpb by (simp_all add: t_def)
  define doy where "doy = t + di - 1"
  have doyb: "0 \<le> doy" "doy \<le> 3036" using tb db by (simp_all add: doy_def)
  have doyw: "((153 * word_of_int mp + 2) div 5 + word_of_int di - 1 :: 32 word) = word_of_int doy"
  proof -
    have h1: "(153 * word_of_int mp + 2 :: 32 word) = word_of_int (153 * mp + 2)" by simp
    have h2: "(word_of_int (153 * mp + 2) :: 32 word) div 5 = word_of_int t"
      using div_wi32[of "153 * mp + 2" 5] mpb by (simp add: t_def)
    show ?thesis unfolding h1 h2 by (simp add: doy_def)
  qed
  define doe where "doe = rr * 365 + rr div 4 - rr div 100 + doy"
  have r4: "0 \<le> rr div 4" "rr div 4 \<le> 99" using rrb by simp_all
  have r100: "0 \<le> rr div 100" "rr div 100 \<le> 3" using rrb by simp_all
  have doeb: "0 \<le> doe" "doe \<le> 148770"
    using rrb doyb r4 r100 unfolding doe_def by linarith+
  have doew: "(word_of_int rr * 365 + word_of_int rr div 4 - word_of_int rr div 100
                 + word_of_int doy :: 32 word) = word_of_int doe"
  proof -
    have h1: "(word_of_int rr :: 32 word) div 4 = word_of_int (rr div 4)"
      using div_wi32[of rr 4] rrb by simp
    have h2: "(word_of_int rr :: 32 word) div 100 = word_of_int (rr div 100)"
      using div_wi32[of rr 100] rrb by simp
    show ?thesis unfolding h1 h2 by (simp add: doe_def)
  qed
  have uc: "(ucast (word_of_int doe :: 32 word) :: 64 word) = word_of_int doe"
    using doeb by (intro ucast_32_64_wi) simp_all
  have res: "fecha_a_dias anio mes dia = word_of_int (q * 146097 + doe - 719468)"
    unfolding fecha_a_dias_def Let_def a1 era ae mpw
    by (simp only: dia doyw doew uc) simp
  have "sint (word_of_int (q * 146097 + doe - 719468) :: 64 word) = q * 146097 + doe - 719468"
    using qb doeb by (intro sint_wi64) linarith+
  moreover have "days_from_civil y mi di = q * 146097 + doe - 719468"
    by (simp add: days_from_civil_def Let_def q_def doe_def rr_def doy_def t_def mp_def y1_def b_def)
  ultimately show ?thesis by (simp add: res y_def mi_def di_def)
qed

lemma fecha_a_dias_de_eq:
  assumes "- (2 ^ 54) \<le> y" "y \<le> 2 ^ 54" "0 \<le> m" "m \<le> 99" "1 \<le> d" "d \<le> 99"
  shows "fecha_a_dias_de (y, m, d) = days_from_civil y m d"
proof -
  have sy: "sint (word_of_int y :: 64 word) = y"
    using assms(1,2) by (intro sint_wi64) simp_all
  have um: "uint (word_of_int m :: 32 word) = m"
    using assms(3,4) by (intro uint_wi32) simp_all
  have ud: "uint (word_of_int d :: 32 word) = d"
    using assms(5,6) by (intro uint_wi32) simp_all
  have "sint (fecha_a_dias (word_of_int y) (word_of_int m) (word_of_int d))
      = days_from_civil (sint (word_of_int y :: 64 word)) (uint (word_of_int m :: 32 word))
          (uint (word_of_int d :: 32 word))"
    using assms by (intro fecha_a_dias_refina) (simp_all add: anio_sin_desborde_def sy word_le_def um ud)
  then show ?thesis by (simp add: fecha_a_dias_de_def sy um ud)
qed

lemma dias_del_mes_cotas: "28 \<le> dias_del_mes y m" "dias_del_mes y m \<le> 31"
  by (simp_all add: dias_del_mes_def)

lemma fecha_a_dias_de_siguiente:
  assumes y: "- (2 ^ 54) \<le> y" "y < 2 ^ 54" and f: "fecha_civil y m d"
  shows "fecha_a_dias_de (dia_siguiente (y, m, d)) = fecha_a_dias_de (y, m, d) + 1"
proof -
  obtain y' m' d' where n: "dia_siguiente (y, m, d) = (y', m', d')"
    by (cases "dia_siguiente (y, m, d)") auto
  have f': "fecha_civil y' m' d'" using siguiente_civil[OF f] n by simp
  have yy: "y' = y \<or> y' = y + 1" using n by (auto simp: dia_siguiente_def split: if_splits)
  have b: "1 \<le> m" "m \<le> 12" "1 \<le> d" "d \<le> 31"
    using f dias_del_mes_cotas(2)[of y m] by (auto simp: fecha_civil_def)
  have b': "1 \<le> m'" "m' \<le> 12" "1 \<le> d'" "d' \<le> 31"
    using f' dias_del_mes_cotas(2)[of y' m'] by (auto simp: fecha_civil_def)
  have yb': "- (2 ^ 54) \<le> y'" "y' \<le> 2 ^ 54" using yy y by auto
  have "fecha_a_dias_de (y', m', d') = days_from_civil y' m' d'"
    using yb' b' by (intro fecha_a_dias_de_eq) simp_all
  moreover have "fecha_a_dias_de (y, m, d) = days_from_civil y m d"
    using y b by (intro fecha_a_dias_de_eq) simp_all
  moreover have "days_from_civil y' m' d' = days_from_civil y m d + 1"
    using days_from_civil_siguiente[OF f] n by simp
  ultimately show ?thesis by (simp add: n)
qed

lemma fecha_a_dias_epoca: "fecha_a_dias 1970 1 1 = 0"
  by (simp add: fecha_a_dias_def ll_div_def signed_divide_int_def)

lemma days_from_civil_anio_mono:
  assumes "y1 < y2"
  shows "days_from_civil y1 m d < days_from_civil y2 m d"
  using dias_gregorianos_mono[of "y1 - (if m \<le> 2 then 1 else 0)" "y2 - (if m \<le> 2 then 1 else 0)"] assms
  by (simp add: days_from_civil_gregorianos)

lemma days_from_civil_fecha_mono:
  assumes f1: "fecha_civil y m1 d1" and f2: "fecha_civil y m2 d2"
    and lt: "m1 < m2 \<or> m1 = m2 \<and> d1 < d2"
  shows "days_from_civil y m1 d1 < days_from_civil y m2 d2"
proof -
  have b1: "1 \<le> m1" "d1 \<le> dias_del_mes y m1" using f1 by (simp_all add: fecha_civil_def)
  have b2: "1 \<le> m2" "m2 \<le> 12" "1 \<le> d2" using f2 by (simp_all add: fecha_civil_def)
  from lt show ?thesis
  proof
    assume "m1 < m2"
    then have "desplazamiento y m1 + dias_del_mes y m1 \<le> desplazamiento y m2"
      using b1 b2 by (intro desp_mono) simp_all
    then show ?thesis using b1 b2 by (simp add: days_from_civil_desplazamiento)
  next
    assume "m1 = m2 \<and> d1 < d2"
    then show ?thesis using b1 by (simp add: days_from_civil_desplazamiento)
  qed
qed

lemma fecha_civil_palabras:
  fixes m d :: unsigned_int
  assumes "fecha_civil y (uint m) (uint d)"
  shows "m \<le> 99" "1 \<le> d" "d \<le> 99"
  using assms dias_del_mes_cotas(2)[of y "uint m"]
  by (simp_all add: fecha_civil_def word_le_def)

section \<open>The parser\<close>

lemma es_digito_no_espacio: "es_digito c \<Longrightarrow> \<not> es_espacio c \<and> c \<noteq> CHR ''-'' \<and> c \<noteq> CHR ''+''"
  by (auto simp: es_digito_def es_espacio_def)

lemma valor_digito_cotas: "es_digito c \<Longrightarrow> 0 \<le> valor_digito c \<and> valor_digito c \<le> 9"
  by (auto simp: es_digito_def valor_digito_def)

lemma valor_decimal_cotas:
  "list_all es_digito ds \<Longrightarrow> 0 \<le> acc \<Longrightarrow>
   0 \<le> valor_decimal acc ds \<and> valor_decimal acc ds < (acc + 1) * 10 ^ length ds"
proof (induction ds arbitrary: acc)
  case Nil
  then show ?case by simp
next
  case (Cons c cs)
  have d: "0 \<le> valor_digito c" "valor_digito c \<le> 9"
    using Cons.prems(1) valor_digito_cotas[of c] by simp_all
  have A: "0 \<le> valor_decimal (10 * acc + valor_digito c) cs
      \<and> valor_decimal (10 * acc + valor_digito c) cs < (10 * acc + valor_digito c + 1) * 10 ^ length cs"
    using Cons.prems d by (intro Cons.IH) simp_all
  have B: "(10 * acc + valor_digito c + 1) * 10 ^ length cs \<le> (acc + 1) * 10 ^ length (c # cs)"
  proof -
    have "(10 * acc + valor_digito c + 1) * 10 ^ length cs \<le> (10 * (acc + 1)) * 10 ^ length cs"
      using d by (intro mult_right_mono) simp_all
    then show ?thesis by (simp add: algebra_simps)
  qed
  have "valor_decimal (10 * acc + valor_digito c) cs < (acc + 1) * 10 ^ length (c # cs)"
    using less_le_trans[OF conjunct2[OF A] B] .
  then show ?case using A by (simp del: power_Suc length_Cons list.size)
qed

lemma stoi_digitos:
  assumes "ds \<noteq> []" "list_all es_digito ds" "length ds \<le> 4"
  shows "\<exists>v. stoi ds = Inr (word_of_int v) \<and> 0 \<le> v \<and> v < 10 ^ length ds"
proof -
  obtain c cs where ds: "ds = c # cs" using assms(1) by (cases ds) auto
  have c: "es_digito c" using assms(2) ds by simp
  have r: "dropWhile es_espacio ds = ds" using es_digito_no_espacio[OF c] ds by simp
  have h: "hd ds \<noteq> CHR ''-''" "hd ds \<noteq> CHR ''+''" using es_digito_no_espacio[OF c] ds by simp_all
  have t: "takeWhile es_digito ds = ds" using assms(2) by (simp add: list_all_iff)
  define v where "v = valor_decimal 0 ds"
  have vb: "0 \<le> v" "v < 10 ^ length ds"
    using valor_decimal_cotas[OF assms(2), of 0] by (simp_all add: v_def)
  have "(10::int) ^ length ds \<le> 10 ^ 4" using assms(3) by (intro power_increasing) simp_all
  then have "v \<le> 2147483647" using vb by simp
  then have "stoi ds = Inr (word_of_int v)"
    using vb assms(1) by (simp add: stoi_def Let_def r h t v_def)
  then show ?thesis using vb by blast
qed

lemma diez_caracteres:
  assumes "length (texto :: string) = 10"
  shows "\<exists>c0 c1 c2 c3 c4 c5 c6 c7 c8 c9. texto = [c0, c1, c2, c3, c4, c5, c6, c7, c8, c9]"
  using assms by (auto simp: eval_nat_numeral length_Suc_conv)

lemma stoi_solo_invalid_argument:
  assumes "length str \<le> 4" "stoi str = Inl e"
  shows "e = Invalid_argument Stoi"
proof -
  define r where "r = dropWhile es_espacio str"
  define r' where "r' = (if r \<noteq> [] \<and> (hd r = CHR ''-'' \<or> hd r = CHR ''+'') then tl r else r)"
  define ds where "ds = takeWhile es_digito r'"
  have l1: "length r \<le> 4" using assms(1) length_dropWhile_le[of es_espacio str] by (simp add: r_def)
  have l2: "length r' \<le> 4" using l1 by (auto simp: r'_def)
  have l3: "length ds \<le> 4" using l2 length_takeWhile_le[of es_digito r'] by (simp add: ds_def)
  have all: "list_all es_digito ds"
    unfolding ds_def list_all_iff using set_takeWhileD by fastforce
  have vb: "0 \<le> valor_decimal 0 ds" "valor_decimal 0 ds < 10 ^ length ds"
    using valor_decimal_cotas[OF all, of 0] by simp_all
  have "(10::int) ^ length ds \<le> 10 ^ 4" using l3 by (intro power_increasing) simp_all
  then have "valor_decimal 0 ds \<le> 9999" using vb by simp
  then have "\<not> (- valor_decimal 0 ds < - 2147483648 \<or> 2147483647 < - valor_decimal 0 ds)"
    "\<not> (valor_decimal 0 ds < - 2147483648 \<or> 2147483647 < valor_decimal 0 ds)"
    using vb by simp_all
  then show ?thesis
    using assms(2) unfolding stoi_def Let_def r_def[symmetric] r'_def[symmetric] ds_def[symmetric]
    by (auto split: if_splits)
qed

lemma parsear_fecha_iso_solo_invalid_argument:
  assumes "parsear_fecha_iso texto = Inl e"
  shows "\<exists>m. e = Invalid_argument m"
  using assms stoi_solo_invalid_argument[of "substr texto 0 4"]
    stoi_solo_invalid_argument[of "substr texto 5 2"] stoi_solo_invalid_argument[of "substr texto 8 2"]
  by (auto simp: parsear_fecha_iso_def substr_def split: if_splits sum.splits)

lemma parsear_fecha_iso_forma:
  "length texto \<noteq> 10 \<or> texto ! 4 \<noteq> CHR ''-'' \<or> texto ! 7 \<noteq> CHR ''-'' \<Longrightarrow>
   parsear_fecha_iso texto = Inl (Invalid_argument Formato_invalido)"
  by (simp add: parsear_fecha_iso_def)

lemma sint_wi32_peq: "0 \<le> v \<Longrightarrow> v < 10000 \<Longrightarrow> sint (word_of_int v :: 32 word) = v"
  by (simp add: sint_sbintrunc' signed_take_bit_int_eq_self)

lemma parsear_fecha_iso_formato:
  assumes "formato_iso texto"
  shows "\<exists>a m d. parsear_fecha_iso texto = Inr (word_of_int a, word_of_int m, word_of_int d)
     \<and> 0 \<le> a \<and> a \<le> 9999 \<and> 0 \<le> m \<and> m \<le> 99 \<and> 0 \<le> d \<and> d \<le> 99"
proof -
  have len: "length texto = 10" using assms by (simp add: formato_iso_def)
  obtain c0 c1 c2 c3 c4 c5 c6 c7 c8 c9 where t: "texto = [c0, c1, c2, c3, c4, c5, c6, c7, c8, c9]"
    using diez_caracteres[OF len] by blast
  have sep: "c4 = CHR ''-''" "c7 = CHR ''-''" using assms by (simp_all add: formato_iso_def t)
  have dg: "list_all es_digito [c0, c1, c2, c3]" "list_all es_digito [c5, c6]" "list_all es_digito [c8, c9]"
    using assms by (simp_all add: formato_iso_def t)
  obtain a where a: "stoi [c0, c1, c2, c3] = Inr (word_of_int a)" "0 \<le> a" "a < 10 ^ 4"
    using stoi_digitos[OF _ dg(1)] by auto
  obtain m where m: "stoi [c5, c6] = Inr (word_of_int m)" "0 \<le> m" "m < 10 ^ 2"
    using stoi_digitos[OF _ dg(2)] by auto
  obtain d where d: "stoi [c8, c9] = Inr (word_of_int d)" "0 \<le> d" "d < 10 ^ 2"
    using stoi_digitos[OF _ dg(3)] by auto
  have "parsear_fecha_iso texto = Inr (word_of_int a, word_of_int m, word_of_int d)"
    by (simp add: parsear_fecha_iso_def t sep substr_def a m d)
  then show ?thesis using a m d by (intro exI[of _ a] exI[of _ m] exI[of _ d]) simp
qed

lemma parsear_fecha_iso_ejemplos:
  "parsear_fecha_iso ''2005-1-06'' = Inl (Invalid_argument Formato_invalido)"
  "parsear_fecha_iso ''20050106'' = Inl (Invalid_argument Formato_invalido)"
  "parsear_fecha_iso '''' = Inl (Invalid_argument Formato_invalido)"
  "parsear_fecha_iso ''2005-01-06'' = Inr (2005, 1, 6)"
  by (simp_all add: parsear_fecha_iso_def stoi_def substr_def es_espacio_def es_digito_def valor_digito_def)

lemma parsear_fecha_iso_anio_negativo:
  "parsear_fecha_iso ''-123-01-06'' = Inr (- 123, 1, 6)"
  by (simp add: formato_iso_def parsear_fecha_iso_def stoi_def substr_def es_espacio_def es_digito_def valor_digito_def)

section \<open>Claims about the day count\<close>

text \<open>
  Claim C5. \<open>fecha_a_dias\<close> is a total function that computes the proleptic Gregorian
  day count by the era algorithm: the day count of 1970-01-01 is 0; for every year
  whose \<^verbatim>\<open>long long\<close> arithmetic does not overflow and every month up to 99 and day
  from 1 to 99 the result is the value of the integer formula with floored division
  (\<open>days_from_civil\<close>); and on every date of the calendar the count of the next day
  is one more.
\<close>

theorem fecha_a_dias_hinnant:
  "fecha_a_dias 1970 1 1 = 0
   \<and> (anio_sin_desborde anio \<and> mes \<le> 99 \<and> 1 \<le> dia \<and> dia \<le> 99 \<longrightarrow>
        sint (fecha_a_dias anio mes dia) = days_from_civil (sint anio) (uint mes) (uint dia))
   \<and> (- (2 ^ 54) \<le> y \<and> y < 2 ^ 54 \<and> fecha_civil y m d \<longrightarrow>
        fecha_a_dias_de (dia_siguiente (y, m, d)) = fecha_a_dias_de (y, m, d) + 1)"
  using fecha_a_dias_epoca fecha_a_dias_refina[of anio mes dia] fecha_a_dias_de_siguiente[of y m d]
  by blast

theorem fecha_a_dias_hinnant_witness:
  "anio_sin_desborde 2004 \<and> (2 :: unsigned_int) \<le> 99 \<and> (1 :: unsigned_int) \<le> 29 \<and> (29 :: unsigned_int) \<le> 99
   \<and> sint (fecha_a_dias 2004 2 29) = days_from_civil 2004 2 29
   \<and> fecha_civil 2004 2 29
   \<and> dia_siguiente (2004, 2, 29) = (2004, 3, 1)
   \<and> fecha_a_dias_de (2004, 3, 1) = fecha_a_dias_de (2004, 2, 29) + 1"
proof -
  have a: "anio_sin_desborde 2004" by (simp add: anio_sin_desborde_def)
  have c: "fecha_civil 2004 2 29" by (simp add: fecha_civil_def dias_del_mes_def bisiesto_def)
  have n: "dia_siguiente (2004, 2, 29) = (2004, 3, 1)"
    by (simp add: dia_siguiente_def dias_del_mes_def bisiesto_def)
  show ?thesis
    using fecha_a_dias_hinnant[of 2004 2 29 2004 2 29] a c n by simp
qed

text \<open>
  Claim C6. \<open>fecha_a_dias (-1) 3 1 - fecha_a_dias (-1) 2 28 = 1\<close>: the year \<open>-1\<close> is not a
  leap year, and the floored era arithmetic gets it right.
\<close>

theorem fecha_a_dias_anio_negativo: "fecha_a_dias (- 1) 3 1 - fecha_a_dias (- 1) 2 28 = 1"
  by (simp add: fecha_a_dias_def ll_div_def signed_divide_int_def)

text \<open>
  Claim C7. \<open>fecha_a_dias\<close> preserves the order: with month and day fixed (month up to
  99, day from 1 to 99) a later year gives a strictly larger count, and within one
  year a later date of the calendar (larger month, or same month and larger day)
  gives a strictly larger count.
\<close>

theorem fecha_a_dias_orden:
  "(anio_sin_desborde a1 \<and> anio_sin_desborde a2 \<and> mes \<le> 99 \<and> 1 \<le> dia \<and> dia \<le> 99
      \<and> sint a1 < sint a2 \<longrightarrow>
        sint (fecha_a_dias a1 mes dia) < sint (fecha_a_dias a2 mes dia))
   \<and> (anio_sin_desborde a \<and> fecha_civil (sint a) (uint m1) (uint d1)
      \<and> fecha_civil (sint a) (uint m2) (uint d2) \<and> (m1 < m2 \<or> m1 = m2 \<and> d1 < d2) \<longrightarrow>
        sint (fecha_a_dias a m1 d1) < sint (fecha_a_dias a m2 d2))"
proof (intro conjI impI)
  assume h: "anio_sin_desborde a1 \<and> anio_sin_desborde a2 \<and> mes \<le> 99 \<and> 1 \<le> dia \<and> dia \<le> 99
      \<and> sint a1 < sint a2"
  then have "sint (fecha_a_dias a1 mes dia) = days_from_civil (sint a1) (uint mes) (uint dia)"
    and "sint (fecha_a_dias a2 mes dia) = days_from_civil (sint a2) (uint mes) (uint dia)"
    by (simp_all add: fecha_a_dias_refina)
  then show "sint (fecha_a_dias a1 mes dia) < sint (fecha_a_dias a2 mes dia)"
    using h days_from_civil_anio_mono[of "sint a1" "sint a2"] by simp
next
  assume h: "anio_sin_desborde a \<and> fecha_civil (sint a) (uint m1) (uint d1)
      \<and> fecha_civil (sint a) (uint m2) (uint d2) \<and> (m1 < m2 \<or> m1 = m2 \<and> d1 < d2)"
  then have f1: "fecha_civil (sint a) (uint m1) (uint d1)"
    and f2: "fecha_civil (sint a) (uint m2) (uint d2)" by simp_all
  have lt: "uint m1 < uint m2 \<or> uint m1 = uint m2 \<and> uint d1 < uint d2"
    using h by (auto simp: word_less_def)
  have "sint (fecha_a_dias a m1 d1) = days_from_civil (sint a) (uint m1) (uint d1)"
    using h fecha_civil_palabras[OF f1] by (intro fecha_a_dias_refina) simp_all
  moreover have "sint (fecha_a_dias a m2 d2) = days_from_civil (sint a) (uint m2) (uint d2)"
    using h fecha_civil_palabras[OF f2] by (intro fecha_a_dias_refina) simp_all
  ultimately show "sint (fecha_a_dias a m1 d1) < sint (fecha_a_dias a m2 d2)"
    using days_from_civil_fecha_mono[OF f1 f2 lt] by simp
qed

theorem fecha_a_dias_orden_witness:
  "anio_sin_desborde 2000 \<and> anio_sin_desborde 2001 \<and> (2 :: unsigned_int) \<le> 99
   \<and> (1 :: unsigned_int) \<le> 29 \<and> (29 :: unsigned_int) \<le> 99 \<and> sint (2000 :: long_long) < sint (2001 :: long_long)
   \<and> sint (fecha_a_dias 2000 2 29) < sint (fecha_a_dias 2001 2 29)
   \<and> fecha_civil (sint (2000 :: long_long)) (uint (2 :: unsigned_int)) (uint (29 :: unsigned_int))
   \<and> fecha_civil (sint (2000 :: long_long)) (uint (3 :: unsigned_int)) (uint (1 :: unsigned_int))
   \<and> (2 :: unsigned_int) < 3
   \<and> sint (fecha_a_dias 2000 2 29) < sint (fecha_a_dias 2000 3 1)"
proof -
  have a: "anio_sin_desborde 2000" "anio_sin_desborde 2001" by (simp_all add: anio_sin_desborde_def)
  have c: "fecha_civil (sint (2000 :: long_long)) (uint (2 :: unsigned_int)) (uint (29 :: unsigned_int))"
    "fecha_civil (sint (2000 :: long_long)) (uint (3 :: unsigned_int)) (uint (1 :: unsigned_int))"
    by (simp_all add: fecha_civil_def dias_del_mes_def bisiesto_def)
  have s: "sint (2000 :: long_long) < sint (2001 :: long_long)" by simp
  have w: "(2 :: unsigned_int) \<le> 99" "(1 :: unsigned_int) \<le> 29" "(29 :: unsigned_int) \<le> 99" "(2 :: unsigned_int) < 3"
    by simp_all
  show ?thesis
    using fecha_a_dias_orden[of 2000 2001 2 29 2000 2 29 3 1] a c s w by blast
qed

text \<open>
  Outside these ranges the unsigned arithmetic wraps: day 0 of March gives a count
  near \<open>2^32\<close>, which a later year decreases; and a day beyond the end of its month
  runs into the next month.
\<close>

lemma fecha_a_dias_dia_cero:
  "sint (fecha_a_dias 2000 3 0) = 4294978312" "sint (fecha_a_dias 2001 3 0) = 11381"
  by (simp_all add: fecha_a_dias_def ll_div_def signed_divide_int_def
        unsigned_minus_1_eq_mask mask_eq_exp_minus_1)

lemma fecha_a_dias_abril_31: "fecha_a_dias 2001 4 31 = fecha_a_dias 2001 5 1"
  by (simp add: fecha_a_dias_def ll_div_def signed_divide_int_def)

section \<open>Claims about the parser\<close>

text \<open>
  Claim C10. For every text of exactly ten characters with \<open>-\<close> at positions 4 and 7
  and decimal digits at the eight other positions, \<open>parsear_fecha_iso\<close> returns
  normally, with a year in \<open>[0, 9999]\<close>, a month in \<open>[0, 99]\<close> and a day in \<open>[0, 99]\<close>;
  no such text gives a negative year.
\<close>

theorem parsear_fecha_iso_rangos:
  assumes "formato_iso texto"
  shows "\<exists>anio mes dia. parsear_fecha_iso texto = Inr (anio, mes, dia)
     \<and> 0 \<le> sint anio \<and> sint anio \<le> 9999 \<and> 0 \<le> sint mes \<and> sint mes \<le> 99
     \<and> 0 \<le> sint dia \<and> sint dia \<le> 99"
proof -
  obtain a m d where p: "parsear_fecha_iso texto = Inr (word_of_int a, word_of_int m, word_of_int d)"
    and b: "0 \<le> a" "a \<le> 9999" "0 \<le> m" "m \<le> 99" "0 \<le> d" "d \<le> 99"
    using parsear_fecha_iso_formato[OF assms] by blast
  have "sint (word_of_int a :: 32 word) = a" "sint (word_of_int m :: 32 word) = m"
    "sint (word_of_int d :: 32 word) = d"
    using b by (simp_all add: sint_wi32_peq)
  then show ?thesis using p b by simp
qed

theorem parsear_fecha_iso_rangos_witness:
  "formato_iso ''2005-01-06''
   \<and> (\<exists>anio mes dia. parsear_fecha_iso ''2005-01-06'' = Inr (anio, mes, dia)
     \<and> 0 \<le> sint anio \<and> sint anio \<le> 9999 \<and> 0 \<le> sint mes \<and> sint mes \<le> 99
     \<and> 0 \<le> sint dia \<and> sint dia \<le> 99)"
proof -
  have f: "formato_iso ''2005-01-06''" by (simp add: formato_iso_def es_digito_def)
  show ?thesis using f parsear_fecha_iso_rangos[OF f] by blast
qed

text \<open>
  Claim C2. \<open>parsear_fecha_iso\<close> should succeed only on texts in the format
  \<open>formato_iso\<close>. It does not: \<^verbatim>\<open>std::stoi\<close> stops at the first character that is not a
  digit and ignores the rest, so the text \<open>20a5-01-06\<close>, which is not in the format, is
  parsed as the date \<open>(20, 1, 6)\<close>.
\<close>

theorem parsear_fecha_iso_acepta_no_iso:
  "\<not> formato_iso ''20a5-01-06'' \<and> parsear_fecha_iso ''20a5-01-06'' = Inr (20, 1, 6)"
  by (simp add: formato_iso_def parsear_fecha_iso_def stoi_def substr_def es_espacio_def es_digito_def valor_digito_def)

theorem parsear_fecha_iso_acepta_no_iso_witness:
  "parsear_fecha_iso ''20a5-01-06'' \<noteq> Inl (Invalid_argument Formato_invalido)
   \<and> parsear_fecha_iso ''20a5-01-06'' \<noteq> Inl (Invalid_argument Stoi)"
  using parsear_fecha_iso_acepta_no_iso by simp

section \<open>Claims about the age\<close>

lemma calcular_falla_iff: "calcular fecha_actual texto = Inl e \<longleftrightarrow> parsear_fecha_iso texto = Inl e"
  by (auto simp: calcular_def Let_def split: sum.splits prod.splits)

lemma calcular_exito:
  "parsear_fecha_iso texto = Inr (anio_nac, mes_nac, dia_nac) \<Longrightarrow>
   calcular fecha_actual texto =
     Inr (real_of_int (sint (fecha_a_dias (scast (tm_year fecha_actual + 1900))
                               (tm_mon fecha_actual + 1) (tm_mday fecha_actual)
                             - fecha_a_dias (scast anio_nac) mes_nac dia_nac)) / 365.2425)"
  by (simp add: calcular_def Let_def)

lemmas evaluar_parser = parsear_fecha_iso_def stoi_def substr_def es_espacio_def es_digito_def
  valor_digito_def

lemmas evaluar_dias = fecha_a_dias_def ll_div_def signed_divide_int_def

text \<open>
  What \<open>calcular\<close> does keep of its contract: it fails exactly when the parser fails,
  with the parser's exception, which is always a \<^verbatim>\<open>std::invalid_argument\<close> (the format
  error when the length or a separator is wrong); it never fails on a text in the ISO
  format, whatever the month and the day (month 13 too); and on success it returns the
  difference of the two day counts of \<open>fecha_a_dias\<close>, the one of the reference date
  minus the one of the birth date, divided by 365.2425.
\<close>

lemma calcular_contrato:
  "(calcular fecha_actual texto = Inl e \<longleftrightarrow> parsear_fecha_iso texto = Inl e)
   \<and> (calcular fecha_actual texto = Inl e \<longrightarrow> (\<exists>m. e = Invalid_argument m))
   \<and> (length texto \<noteq> 10 \<or> texto ! 4 \<noteq> CHR ''-'' \<or> texto ! 7 \<noteq> CHR ''-'' \<longrightarrow>
        calcular fecha_actual texto = Inl (Invalid_argument Formato_invalido))
   \<and> (formato_iso texto \<longrightarrow> (\<exists>edad. calcular fecha_actual texto = Inr edad))
   \<and> (parsear_fecha_iso texto = Inr (anio_nac, mes_nac, dia_nac) \<longrightarrow>
        calcular fecha_actual texto =
          Inr (real_of_int (sint (fecha_a_dias (scast (tm_year fecha_actual + 1900))
                                    (tm_mon fecha_actual + 1) (tm_mday fecha_actual)
                                  - fecha_a_dias (scast anio_nac) mes_nac dia_nac)) / 365.2425))"
proof (intro conjI impI)
  show "calcular fecha_actual texto = Inl e \<longleftrightarrow> parsear_fecha_iso texto = Inl e"
    by (rule calcular_falla_iff)
next
  assume "calcular fecha_actual texto = Inl e"
  then have "parsear_fecha_iso texto = Inl e" by (simp add: calcular_falla_iff)
  then show "\<exists>m. e = Invalid_argument m" by (rule parsear_fecha_iso_solo_invalid_argument)
next
  assume "length texto \<noteq> 10 \<or> texto ! 4 \<noteq> CHR ''-'' \<or> texto ! 7 \<noteq> CHR ''-''"
  then have "parsear_fecha_iso texto = Inl (Invalid_argument Formato_invalido)"
    by (rule parsear_fecha_iso_forma)
  then show "calcular fecha_actual texto = Inl (Invalid_argument Formato_invalido)"
    by (simp add: calcular_falla_iff)
next
  assume "formato_iso texto"
  then obtain a m d where "parsear_fecha_iso texto = Inr (word_of_int a, word_of_int m, word_of_int d)"
    using parsear_fecha_iso_formato by blast
  then show "\<exists>edad. calcular fecha_actual texto = Inr edad"
    using calcular_exito by blast
next
  assume "parsear_fecha_iso texto = Inr (anio_nac, mes_nac, dia_nac)"
  then show "calcular fecha_actual texto =
          Inr (real_of_int (sint (fecha_a_dias (scast (tm_year fecha_actual + 1900))
                                    (tm_mon fecha_actual + 1) (tm_mday fecha_actual)
                                  - fecha_a_dias (scast anio_nac) mes_nac dia_nac)) / 365.2425)"
    by (rule calcular_exito)
qed

lemma calcular_contrato_ejemplo:
  "parsear_fecha_iso ''2005-1-06'' = Inl (Invalid_argument Formato_invalido)
   \<and> calcular (reloj 2024 11 1 0) ''2005-1-06'' = Inl (Invalid_argument Formato_invalido)
   \<and> formato_iso ''2005-13-06''
   \<and> parsear_fecha_iso ''2005-13-06'' = Inr (2005, 13, 6)
   \<and> calcular (reloj 2024 11 1 0) ''2005-13-06'' = Inr (real_of_int (20028 - 13154) / 365.2425)"
proof -
  have p1: "parsear_fecha_iso ''2005-1-06'' = Inl (Invalid_argument Formato_invalido)"
    by (simp add: parsear_fecha_iso_def)
  have f: "formato_iso ''2005-13-06''" by (simp add: formato_iso_def es_digito_def)
  have p2: "parsear_fecha_iso ''2005-13-06'' = Inr (2005, 13, 6)"
    by (simp add: evaluar_parser)
  have d1: "fecha_a_dias (scast (tm_year (reloj 2024 11 1 0) + 1900))
              (tm_mon (reloj 2024 11 1 0) + 1) (tm_mday (reloj 2024 11 1 0)) = 20028"
    by (simp add: reloj_def evaluar_dias)
  have d2: "fecha_a_dias (scast (2005 :: c_int)) 13 6 = 13154"
    by (simp add: evaluar_dias)
  show ?thesis
    using calcular_contrato[of "reloj 2024 11 1 0" "''2005-1-06''" "Invalid_argument Formato_invalido"]
      calcular_contrato[of "reloj 2024 11 1 0" "''2005-13-06''" _ 2005 13 6] p1 f p2 d1 d2
    by simp
qed

text \<open>
  Claim C3. \<open>calcular\<close> should fail with the parser's format error exactly when the
  text is malformed. It does not: the text \<open>20a5-01-06\<close> is not in the format
  \<open>YYYY-MM-DD\<close>, and \<open>calcular\<close> returns an age for it, the one of a birth on 6 January
  of the year 20 (732246 days before 1 November 2024, about 2004.8 years), because
  the parser reads the year with \<^verbatim>\<open>std::stoi\<close>, which stops at the \<open>a\<close>. The header
  promises \<^verbatim>\<open>@throws std::invalid_argument\<close> when the date does not respect the ISO
  format.
\<close>

theorem calcular_acepta_no_iso:
  "\<not> formato_iso ''20a5-01-06''
   \<and> calcular (reloj 2024 11 1 0) ''20a5-01-06'' = Inr (732246 / 365.2425)"
  by (simp add: formato_iso_def es_digito_def calcular_def reloj_def evaluar_parser evaluar_dias)

theorem calcular_acepta_no_iso_witness:
  "calcular (reloj 2024 11 1 0) ''20a5-01-06'' \<noteq> Inl (Invalid_argument Formato_invalido)
   \<and> calcular (reloj 2024 11 1 0) ''20a5-01-06'' \<noteq> Inl (Invalid_argument Stoi)"
  using calcular_acepta_no_iso by simp

text \<open>
  Claim C4 says that the reference date is given by the caller and that the result
  does not depend on the system clock. The function has no such parameter: it reads
  the clock itself, and the same text gives two different ages on two different days.
\<close>

theorem calcular_lee_el_reloj:
  "calcular (reloj 2024 11 1 0) ''2004-11-01'' \<noteq> calcular (reloj 2024 11 2 0) ''2004-11-01''"
proof -
  have c1: "calcular (reloj 2024 11 1 0) ''2004-11-01'' = Inr (7305 / 365.2425)"
    by (simp add: calcular_def reloj_def evaluar_parser evaluar_dias)
  have c2: "calcular (reloj 2024 11 2 0) ''2004-11-01'' = Inr (7306 / 365.2425)"
    by (simp add: calcular_def reloj_def evaluar_parser evaluar_dias)
  show ?thesis unfolding c1 c2 by simp
qed

text \<open>
  Claim C4, amended. \<open>calcular\<close> is a function of the text and of the local calendar
  date that it reads from the system clock: two calls with the same text return the
  same result whenever the clock shows the same year, month and day of the month,
  whatever the time of day.
\<close>

theorem calcular_solo_fecha_del_reloj:
  "tm_year r1 = tm_year r2 \<and> tm_mon r1 = tm_mon r2 \<and> tm_mday r1 = tm_mday r2 \<longrightarrow>
   calcular r1 texto = calcular r2 texto"
proof
  assume "tm_year r1 = tm_year r2 \<and> tm_mon r1 = tm_mon r2 \<and> tm_mday r1 = tm_mday r2"
  then have a: "tm_year r1 = tm_year r2" and b: "tm_mon r1 = tm_mon r2"
    and c: "tm_mday r1 = tm_mday r2" by simp_all
  show "calcular r1 texto = calcular r2 texto" unfolding calcular_def a b c ..
qed

theorem calcular_solo_fecha_del_reloj_witness:
  "reloj 2024 11 1 0 \<noteq> reloj 2024 11 1 23
   \<and> tm_year (reloj 2024 11 1 0) = tm_year (reloj 2024 11 1 23)
   \<and> tm_mon (reloj 2024 11 1 0) = tm_mon (reloj 2024 11 1 23)
   \<and> tm_mday (reloj 2024 11 1 0) = tm_mday (reloj 2024 11 1 23)
   \<and> calcular (reloj 2024 11 1 0) ''2004-11-01'' = calcular (reloj 2024 11 1 23) ''2004-11-01''"
proof -
  have a: "tm_year (reloj 2024 11 1 0) = tm_year (reloj 2024 11 1 23)
    \<and> tm_mon (reloj 2024 11 1 0) = tm_mon (reloj 2024 11 1 23)
    \<and> tm_mday (reloj 2024 11 1 0) = tm_mday (reloj 2024 11 1 23)"
    by (simp add: reloj_def)
  have n: "reloj 2024 11 1 0 \<noteq> reloj 2024 11 1 23" by (simp add: reloj_def)
  show ?thesis
    using calcular_solo_fecha_del_reloj[of "reloj 2024 11 1 0" "reloj 2024 11 1 23" "''2004-11-01''"] a n
    by blast
qed

section \<open>The termination protocol\<close>

lemma sum_list_update_nat:
  fixes f :: "'a \<Rightarrow> nat"
  assumes "i < length xs"
  shows "sum_list (map f (xs[i := y])) + f (xs ! i) = sum_list (map f xs) + f y"
  using assms
proof (induction xs arbitrary: i)
  case Nil
  then show ?case by simp
next
  case (Cons x xs)
  then show ?case by (cases i) (auto simp: add.assoc add.left_commute)
qed

lemma elem_le_sum_list_nat:
  fixes f :: "'a \<Rightarrow> nat"
  shows "i < length xs \<Longrightarrow> f (xs ! i) \<le> sum_list (map f xs)"
  using sum_list_update_nat[of i xs f "xs ! i"] by (induction xs arbitrary: i) (auto simp: nth_Cons split: nat.splits intro: trans_le_add2)

lemma set_updateD: "h \<in> set (xs[i := y]) \<Longrightarrow> h = y \<or> h \<in> set xs"
  using set_update_subset_insert[of xs i y] by auto

lemma n_productores_poner:
  "i < length (hilos s) \<Longrightarrow>
   n_productores (poner i h s) + productor (hilos s ! i) = n_productores s + productor h"
  by (simp add: n_productores_def poner_def sum_list_update_nat)

lemma productor_le: "i < length (hilos s) \<Longrightarrow> productor (hilos s ! i) \<le> n_productores s"
  by (simp add: n_productores_def elem_le_sum_list_nat)

lemma poner_campos [simp]:
  "single_tomado (poner i h s) = single_tomado s" "terminado (poner i h s) = terminado s"
  "archivo (poner i h s) = archivo s" "fichero (poner i h s) = fichero s"
  "cola (poner i h s) = cola s" "mapa (poner i h s) = mapa s" "cerr (poner i h s) = cerr s"
  "abortado (poner i h s) = abortado s" "bitacora (poner i h s) = bitacora s"
  "consumidas (poner i h s) = consumidas s" "ruta (poner i h s) = ruta s"
  "hilos (poner i h s) = (hilos s)[i := h]"
  by (simp_all add: poner_def)

lemma n_productores_campos [simp]:
  "n_productores (s\<lparr>single_tomado := a\<rparr>) = n_productores s"
  "n_productores (s\<lparr>terminado := b\<rparr>) = n_productores s"
  "n_productores (s\<lparr>archivo := c\<rparr>) = n_productores s"
  "n_productores (s\<lparr>cola := d\<rparr>) = n_productores s"
  "n_productores (s\<lparr>mapa := e\<rparr>) = n_productores s"
  "n_productores (s\<lparr>cerr := f\<rparr>) = n_productores s"
  "n_productores (s\<lparr>abortado := g\<rparr>) = n_productores s"
  "n_productores (s\<lparr>bitacora := h\<rparr>) = n_productores s"
  "n_productores (s\<lparr>consumidas := j\<rparr>) = n_productores s"
  by (simp_all add: n_productores_def)

lemma n_productores_poner_eq:
  "i < length (hilos s) \<Longrightarrow>
   n_productores (poner i h s) = n_productores s - productor (hilos s ! i) + productor h"
  using n_productores_poner[of i s h] productor_le[of i s] by linarith

lemma inv_protocolo_paso_hilo:
  assumes inv: "inv_protocolo s" and i: "i < length (hilos s)"
  shows "inv_protocolo (paso_hilo (hilos s ! i) i ok ahora s)"
proof -
  have le: "productor (hilos s ! i) \<le> n_productores s" using i by (rule productor_le)
  have mem: "hilos s ! i \<in> set (hilos s)" using i by simp
  note ss = inv_protocolo_def productor_def n_productores_poner_eq
  show ?thesis
  proof (cases "hilos s ! i")
    case Inicio
    then show ?thesis using inv i le mem by (auto simp: ss dest!: set_updateD)
  next
    case Abriendo
    then show ?thesis using inv i le mem
      by (auto simp: ss dest!: set_updateD split: option.splits)
  next
    case Leyendo
    then show ?thesis using inv i le mem
      by (cases "archivo s") (auto simp: ss dest!: set_updateD)
  next
    case (Empujando p)
    then show ?thesis using inv i le mem by (auto simp: ss dest!: set_updateD)
  next
    case (Cediendo_productor p)
    then show ?thesis using inv i le mem by (auto simp: ss dest!: set_updateD)
  next
    case Extrayendo
    then show ?thesis using inv i le mem
      by (cases "cola s") (auto simp: ss dest!: set_updateD)
  next
    case (Procesando fecha)
    then show ?thesis using inv i le mem
      by (auto simp: ss dest!: set_updateD split: sum.splits option.splits)
  next
    case (Emplazando k)
    then show ?thesis using inv i le mem by (auto simp: ss dest!: set_updateD)
  next
    case (Visitando k)
    then show ?thesis using inv i le mem by (auto simp: ss dest!: set_updateD)
  next
    case Mirando_terminado
    then show ?thesis using inv i le mem by (auto simp: ss dest!: set_updateD)
  next
    case Mirando_vacia
    then show ?thesis using inv i le mem by (auto simp: ss dest!: set_updateD)
  next
    case Cediendo
    then show ?thesis using inv i le mem by (auto simp: ss dest!: set_updateD)
  next
    case Salido
    then show ?thesis using inv by simp
  qed
qed

lemma length_hilos_paso_hilo [simp]: "length (hilos (paso_hilo h i ok ahora s)) = length (hilos s)"
  by (cases h) (auto split: option.splits list.splits sum.splits)

lemma length_hilos_paso [simp]: "length (hilos (paso ev s)) = length (hilos s)"
  by (cases ev) (simp add: paso_def)

lemma ejecutar_Nil [simp]: "ejecutar [] s = s"
  by (simp add: ejecutar_def)

lemma ejecutar_Cons [simp]: "ejecutar (ev # evs) s = ejecutar evs (paso ev s)"
  by (simp add: ejecutar_def)

lemma ejecutar_append: "ejecutar (evs @ evs') s = ejecutar evs' (ejecutar evs s)"
  by (simp add: ejecutar_def)

lemma length_hilos_ejecutar [simp]: "length (hilos (ejecutar evs s)) = length (hilos s)"
  by (induction evs arbitrary: s) simp_all

lemma inv_protocolo_paso: "inv_protocolo s \<Longrightarrow> inv_protocolo (paso ev s)"
  by (cases ev) (simp add: paso_def inv_protocolo_paso_hilo)

lemma inv_protocolo_ejecutar: "inv_protocolo s \<Longrightarrow> inv_protocolo (ejecutar evs s)"
  by (induction evs arbitrary: s) (simp_all add: inv_protocolo_paso)

lemma sum_list_replicate_0: "sum_list (map f (replicate n x)) = n * f x" for f :: "'a \<Rightarrow> nat"
  by (induction n) simp_all

lemma inv_protocolo_inicial: "inv_protocolo (inicial n r f)"
  by (auto simp: inv_protocolo_def inicial_def n_productores_def productor_def lineas_de_def
      sum_list_replicate)

lemma sin_productores:
  assumes "n_productores s = 0" "h \<in> set (hilos s)"
  shows "productor h = 0"
proof -
  obtain i where "i < length (hilos s)" "hilos s ! i = h"
    using assms(2) by (auto simp: in_set_conv_nth)
  then show ?thesis using productor_le[of i s] assms(1) by simp
qed

lemma salida_del_bucle:
  assumes "i < length (hilos s)" "hilos s ! i \<noteq> Salido" "hilos (paso (i, ok, ahora) s) ! i = Salido"
  shows "hilos s ! i = Mirando_vacia \<and> cola s = []"
  using assms
  by (cases "hilos s ! i")
    (auto simp: paso_def split: if_splits option.splits list.splits sum.splits)

lemma entrada_mirando_vacia:
  assumes "i < length (hilos s)" "hilos s ! i \<noteq> Mirando_vacia"
    "hilos (paso (i, ok, ahora) s) ! i = Mirando_vacia"
  shows "hilos s ! i = Mirando_terminado \<and> terminado s"
  using assms
  by (cases "hilos s ! i")
    (auto simp: paso_def split: if_splits option.splits list.splits sum.splits)

lemma entrada_mirando_terminado:
  assumes "i < length (hilos s)" "hilos s ! i \<noteq> Mirando_terminado"
    "hilos (paso (i, ok, ahora) s) ! i = Mirando_terminado"
  shows "hilos s ! i = Extrayendo \<and> cola s = []"
  using assms
  by (cases "hilos s ! i")
    (auto simp: paso_def split: if_splits option.splits list.splits sum.splits)

lemma reintento:
  assumes "i < length (hilos s)" "abortado s = None"
  shows "hilos s ! i = Mirando_terminado \<and> \<not> terminado s \<longrightarrow> hilos (paso (i, ok, ahora) s) ! i = Cediendo"
    "hilos s ! i = Mirando_vacia \<and> cola s \<noteq> [] \<longrightarrow> hilos (paso (i, ok, ahora) s) ! i = Cediendo"
    "hilos s ! i = Cediendo \<longrightarrow> hilos (paso (i, ok, ahora) s) ! i = Extrayendo"
  using assms by (auto simp: paso_def)

text \<open>
  Claim C8. A consumer leaves its loop only in the step that finds the queue empty
  (\<open>Mirando_vacia\<close>); it makes that check only after it loaded the flag and found it
  set (\<open>Mirando_terminado\<close>), which it does only after its pop failed, all in one
  iteration. When the flag is not set, or the queue is not empty, it yields and tries
  the pop again. In every state that a run reaches, a consumer that has left finds the
  flag set, the queue empty, the file exhausted and no thread in the producer's block:
  nothing is left to push and nothing is buffered.
\<close>

theorem consumidor_sale_solo_con_ambas:
  "let s = ejecutar evs (inicial n r f); s' = paso (i, ok, ahora) s in
     (i < n \<and> hilos s ! i \<noteq> Salido \<and> hilos s' ! i = Salido \<longrightarrow>
        hilos s ! i = Mirando_vacia \<and> cola s = [] \<and> terminado s)
   \<and> (i < n \<and> hilos s ! i \<noteq> Mirando_vacia \<and> hilos s' ! i = Mirando_vacia \<longrightarrow>
        hilos s ! i = Mirando_terminado \<and> terminado s)
   \<and> (i < n \<and> hilos s ! i \<noteq> Mirando_terminado \<and> hilos s' ! i = Mirando_terminado \<longrightarrow>
        hilos s ! i = Extrayendo \<and> cola s = [])
   \<and> (i < n \<and> abortado s = None \<and> hilos s ! i = Mirando_terminado \<and> \<not> terminado s \<longrightarrow>
        hilos s' ! i = Cediendo)
   \<and> (i < n \<and> abortado s = None \<and> hilos s ! i = Mirando_vacia \<and> cola s \<noteq> [] \<longrightarrow>
        hilos s' ! i = Cediendo)
   \<and> (i < n \<and> abortado s = None \<and> hilos s ! i = Cediendo \<longrightarrow> hilos s' ! i = Extrayendo)
   \<and> (Salido \<in> set (hilos s) \<longrightarrow>
        terminado s \<and> cola s = [] \<and> archivo s = [] \<and> (\<forall>h \<in> set (hilos s). productor h = 0))"
proof -
  define s where "s = ejecutar evs (inicial n r f)"
  define s' where "s' = paso (i, ok, ahora) s"
  have len: "length (hilos s) = n" by (simp add: s_def inicial_def)
  have inv: "inv_protocolo s" unfolding s_def by (intro inv_protocolo_ejecutar inv_protocolo_inicial)
  have a: "i < n \<and> hilos s ! i \<noteq> Salido \<and> hilos s' ! i = Salido \<longrightarrow>
        hilos s ! i = Mirando_vacia \<and> cola s = [] \<and> terminado s"
  proof
    assume h: "i < n \<and> hilos s ! i \<noteq> Salido \<and> hilos s' ! i = Salido"
    then have m: "hilos s ! i = Mirando_vacia \<and> cola s = []"
      using salida_del_bucle[of i s ok ahora] len by (simp add: s'_def)
    then have "Mirando_vacia \<in> set (hilos s)" using h len nth_mem[of i "hilos s"] by simp
    then show "hilos s ! i = Mirando_vacia \<and> cola s = [] \<and> terminado s"
      using m inv by (simp add: inv_protocolo_def)
  qed
  have b: "i < n \<and> hilos s ! i \<noteq> Mirando_vacia \<and> hilos s' ! i = Mirando_vacia \<longrightarrow>
        hilos s ! i = Mirando_terminado \<and> terminado s"
    using entrada_mirando_vacia[of i s ok ahora] len by (simp add: s'_def)
  have c: "i < n \<and> hilos s ! i \<noteq> Mirando_terminado \<and> hilos s' ! i = Mirando_terminado \<longrightarrow>
        hilos s ! i = Extrayendo \<and> cola s = []"
    using entrada_mirando_terminado[of i s ok ahora] len by (simp add: s'_def)
  have d: "i < n \<and> abortado s = None \<and> hilos s ! i = Mirando_terminado \<and> \<not> terminado s \<longrightarrow>
        hilos s' ! i = Cediendo"
    "i < n \<and> abortado s = None \<and> hilos s ! i = Mirando_vacia \<and> cola s \<noteq> [] \<longrightarrow>
        hilos s' ! i = Cediendo"
    "i < n \<and> abortado s = None \<and> hilos s ! i = Cediendo \<longrightarrow> hilos s' ! i = Extrayendo"
    using reintento[of i s ok ahora] len by (simp_all add: s'_def)
  have e: "Salido \<in> set (hilos s) \<longrightarrow>
        terminado s \<and> cola s = [] \<and> archivo s = [] \<and> (\<forall>h \<in> set (hilos s). productor h = 0)"
    using inv sin_productores[of s] by (auto simp: inv_protocolo_def)
  show ?thesis
    unfolding Let_def s_def[symmetric] s'_def[symmetric] using a b c d e by blast
qed

lemma corrida_vacia_estado:
  "hilos (ejecutar corrida_vacia (inicial 1 ''datos.csv'' (Some ['''']))) = [Mirando_vacia]"
  "cola (ejecutar corrida_vacia (inicial 1 ''datos.csv'' (Some ['''']))) = []"
  "terminado (ejecutar corrida_vacia (inicial 1 ''datos.csv'' (Some [''''])))"
  "abortado (ejecutar corrida_vacia (inicial 1 ''datos.csv'' (Some ['''']))) = None"
  by (simp_all add: corrida_vacia_def numeral_eq_Suc paso_def inicial_def lineas_de_def poner_def)

theorem consumidor_sale_solo_con_ambas_witness:
  "hilos (ejecutar corrida_vacia (inicial 1 ''datos.csv'' (Some ['''']))) ! 0 = Mirando_vacia
   \<and> hilos (paso (0, True, reloj 2024 11 1 0)
        (ejecutar corrida_vacia (inicial 1 ''datos.csv'' (Some ['''']))))  ! 0 = Salido
   \<and> cola (ejecutar corrida_vacia (inicial 1 ''datos.csv'' (Some ['''']))) = []
   \<and> terminado (ejecutar corrida_vacia (inicial 1 ''datos.csv'' (Some [''''])))"
proof -
  have e: "paso (0, True, reloj 2024 11 1 0)
        (ejecutar corrida_vacia (inicial 1 ''datos.csv'' (Some [''''])))
      = ejecutar (corrida_vacia @ [(0, True, reloj 2024 11 1 0)])
          (inicial 1 ''datos.csv'' (Some ['''']))"
    by (simp add: ejecutar_append)
  have p: "hilos (paso (0, True, reloj 2024 11 1 0)
        (ejecutar corrida_vacia (inicial 1 ''datos.csv'' (Some ['''']))))  ! 0 = Salido"
    unfolding e
    by (simp add: corrida_vacia_def numeral_eq_Suc paso_def inicial_def lineas_de_def poner_def)
  have q: "hilos (ejecutar corrida_vacia (inicial 1 ''datos.csv'' (Some ['''']))) ! 0 \<noteq> Salido"
    unfolding corrida_vacia_estado(1) by simp
  have pre: "(0::nat) < 1
     \<and> hilos (ejecutar corrida_vacia (inicial 1 ''datos.csv'' (Some ['''']))) ! 0 \<noteq> Salido
     \<and> hilos (paso (0, True, reloj 2024 11 1 0)
          (ejecutar corrida_vacia (inicial 1 ''datos.csv'' (Some ['''']))))  ! 0 = Salido"
    using p q by blast
  have imp: "(0::nat) < 1
     \<and> hilos (ejecutar corrida_vacia (inicial 1 ''datos.csv'' (Some ['''']))) ! 0 \<noteq> Salido
     \<and> hilos (paso (0, True, reloj 2024 11 1 0)
          (ejecutar corrida_vacia (inicial 1 ''datos.csv'' (Some ['''']))))  ! 0 = Salido
     \<longrightarrow> hilos (ejecutar corrida_vacia (inicial 1 ''datos.csv'' (Some ['''']))) ! 0 = Mirando_vacia
       \<and> cola (ejecutar corrida_vacia (inicial 1 ''datos.csv'' (Some ['''']))) = []
       \<and> terminado (ejecutar corrida_vacia (inicial 1 ''datos.csv'' (Some [''''])))"
    using consumidor_sale_solo_con_ambas[of corrida_vacia 1 "''datos.csv''" "Some ['''']" 0 True
        "reloj 2024 11 1 0", unfolded Let_def]
    by (rule conjunct1)
  show ?thesis using mp[OF imp pre] p by blast
qed

section \<open>Conservation of the lines and of the counts\<close>

lemma mset_concat_update:
  assumes "i < length xs"
  shows "mset (concat (map f (xs[i := y]))) + mset (f (xs ! i)) = mset (concat (map f xs)) + mset (f y)"
  using assms
proof (induction xs arbitrary: i)
  case Nil
  then show ?case by simp
next
  case (Cons x xs)
  then show ?case by (cases i) (auto simp: ac_simps)
qed

lemma manos_poner:
  "i < length (hilos s) \<Longrightarrow>
   manos (poner i h s) + mset (en_mano (hilos s ! i)) = manos s + mset (en_mano h)"
  by (simp add: manos_def mset_concat_update)

lemma manos_hilos: "hilos s' = hilos s \<Longrightarrow> manos s' = manos s"
  by (simp add: manos_def)

lemma inv_lineas_poner:
  assumes i: "i < length (hilos s)" and h: "hilos s' = hilos s" and a: "abortado s' = abortado s"
    and inv: "inv_lineas L s"
    and eq: "mset (archivo s') + mset (en_mano h) + mset (cola s') + mset (consumidas s')
       = mset (archivo s) + mset (en_mano (hilos s ! i)) + mset (cola s) + mset (consumidas s)"
  shows "inv_lineas L (poner i h s')"
  unfolding inv_lineas_def
proof
  assume "abortado (poner i h s') = None"
  then have n: "abortado s = None" using a by simp
  have 1: "mset (archivo s) + manos s + mset (cola s) + mset (consumidas s) = mset L"
    using inv n by (simp add: inv_lineas_def)
  have 2: "manos (poner i h s') + mset (en_mano (hilos s ! i)) = manos s + mset (en_mano h)"
    using manos_poner[of i s' h] i h manos_hilos[OF h] by simp
  show "mset (archivo (poner i h s')) + manos (poner i h s') + mset (cola (poner i h s'))
      + mset (consumidas (poner i h s')) = mset L"
  proof (rule multiset_eqI)
    fix x
    have c1: "count (mset (archivo s)) x + count (manos s) x + count (mset (cola s)) x
        + count (mset (consumidas s)) x = count (mset L) x"
      using arg_cong[OF 1, of "\<lambda>M. count M x"] by simp
    have c2: "count (manos (poner i h s')) x + count (mset (en_mano (hilos s ! i))) x
        = count (manos s) x + count (mset (en_mano h)) x"
      using arg_cong[OF 2, of "\<lambda>M. count M x"] by simp
    have c3: "count (mset (archivo s')) x + count (mset (en_mano h)) x + count (mset (cola s')) x
        + count (mset (consumidas s')) x
       = count (mset (archivo s)) x + count (mset (en_mano (hilos s ! i))) x + count (mset (cola s)) x
        + count (mset (consumidas s)) x"
      using arg_cong[OF eq, of "\<lambda>M. count M x"] by simp
    show "count (mset (archivo (poner i h s')) + manos (poner i h s') + mset (cola (poner i h s'))
      + mset (consumidas (poner i h s'))) x = count (mset L) x"
      using c1 c2 c3 by simp
  qed
qed

lemma inv_lineas_paso_hilo:
  assumes inv: "inv_lineas L s" and i: "i < length (hilos s)"
  shows "inv_lineas L (paso_hilo (hilos s ! i) i ok ahora s)"
proof (cases "hilos s ! i")
  case Inicio
  then show ?thesis using inv i
    by (auto intro!: inv_lineas_poner simp: en_mano_def)
next
  case Abriendo
  then show ?thesis using inv i
    by (auto intro!: inv_lineas_poner simp: en_mano_def split: option.splits)
next
  case Leyendo
  then show ?thesis using inv i
    by (cases "archivo s") (auto intro!: inv_lineas_poner simp: en_mano_def)
next
  case (Empujando p)
  then show ?thesis using inv i
    by (auto intro!: inv_lineas_poner simp: en_mano_def)
next
  case (Cediendo_productor p)
  then show ?thesis using inv i
    by (auto intro!: inv_lineas_poner simp: en_mano_def)
next
  case Extrayendo
  then show ?thesis using inv i
    by (cases "cola s") (auto intro!: inv_lineas_poner simp: en_mano_def)
next
  case (Procesando fecha)
  show ?thesis
  proof (cases "fecha = []")
    case True
    then show ?thesis using Procesando inv i
      by (auto intro!: inv_lineas_poner simp: en_mano_def)
  next
    case False
    show ?thesis
    proof (cases "calcular ahora fecha")
      case (Inl e)
      then show ?thesis using Procesando False by (simp add: inv_lineas_def)
    next
      case (Inr e)
      have "en_mano (case clave_de e of None \<Rightarrow> Extrayendo | Some clave \<Rightarrow> Emplazando clave) = []"
        by (simp add: en_mano_def split: option.splits)
      then show ?thesis using Procesando False Inr inv i
        by (auto intro!: inv_lineas_poner simp: en_mano_def)
    qed
  qed
next
  case (Emplazando k)
  then show ?thesis using inv i
    by (auto intro!: inv_lineas_poner simp: en_mano_def)
next
  case (Visitando k)
  then show ?thesis using inv i
    by (auto intro!: inv_lineas_poner simp: en_mano_def)
next
  case Mirando_terminado
  then show ?thesis using inv i
    by (auto intro!: inv_lineas_poner simp: en_mano_def)
next
  case Mirando_vacia
  then show ?thesis using inv i
    by (auto intro!: inv_lineas_poner simp: en_mano_def)
next
  case Cediendo
  then show ?thesis using inv i
    by (auto intro!: inv_lineas_poner simp: en_mano_def)
next
  case Salido
  then show ?thesis using inv by simp
qed

lemma inv_bitacora_paso_hilo:
  assumes inv: "inv_bitacora s"
  shows "inv_bitacora (paso_hilo h i ok ahora s)"
  using inv
  by (cases h) (auto simp: inv_bitacora_def split: option.splits list.splits sum.splits)

lemma total_upd:
  assumes "0 \<le> k" "k \<le> 130"
  shows "total (m(k \<mapsto> v)) = total m - cuenta_de m k + sint v"
proof -
  have k: "k \<in> {0..130}" using assms by simp
  have r: "(\<Sum>j \<in> {0..130} - {k}. cuenta_de (m(k \<mapsto> v)) j) = (\<Sum>j \<in> {0..130} - {k}. cuenta_de m j)"
    by (rule sum.cong) (simp_all add: cuenta_de_def)
  have "total (m(k \<mapsto> v)) = cuenta_de (m(k \<mapsto> v)) k + (\<Sum>j \<in> {0..130} - {k}. cuenta_de (m(k \<mapsto> v)) j)"
    unfolding total_def using k by (intro sum.remove) simp_all
  moreover have "total m = cuenta_de m k + (\<Sum>j \<in> {0..130} - {k}. cuenta_de m j)"
    unfolding total_def using k by (intro sum.remove) simp_all
  ultimately show ?thesis using r by (simp add: cuenta_de_def)
qed

lemma cuenta_le_total:
  assumes "\<forall>k v. m k = Some v \<longrightarrow> 0 \<le> sint v" "0 \<le> k" "k \<le> 130"
  shows "cuenta_de m k \<le> total m"
proof -
  have k: "k \<in> {0..130}" using assms by simp
  have nn: "\<And>j. 0 \<le> cuenta_de m j" using assms(1) by (simp add: cuenta_de_def split: option.splits)
  have "total m = cuenta_de m k + (\<Sum>j \<in> {0..130} - {k}. cuenta_de m j)"
    unfolding total_def using k by (intro sum.remove) simp_all
  moreover have "0 \<le> (\<Sum>j \<in> {0..130} - {k}. cuenta_de m j)" using nn by (intro sum_nonneg) simp
  ultimately show ?thesis by simp
qed

lemma sint_mas_uno:
  assumes "sint (v :: 32 word) < 2147483647"
  shows "sint (v + 1) = sint v + 1"
proof -
  have "- 2147483648 \<le> sint v" using sint_ge[of v] by simp
  then show ?thesis using assms
    by (simp add: sint_word_ariths signed_take_bit_int_eq_self)
qed

lemma n_pendientes_poner:
  "i < length (hilos s) \<Longrightarrow>
   n_pendientes (poner i h s) + pendiente (hilos s ! i) = n_pendientes s + pendiente h"
  by (simp add: n_pendientes_def sum_list_update_nat)

lemma n_pendientes_hilos: "hilos s' = hilos s \<Longrightarrow> n_pendientes s' = n_pendientes s"
  by (simp add: n_pendientes_def)

lemma cota_bitacora:
  assumes "inv_lineas L s" "inv_bitacora s" "abortado s = None"
  shows "length (bitacora s) \<le> length L"
proof -
  have "length (bitacora s) = length (map fst (bitacora s))" by simp
  also have "\<dots> = length (filter (\<lambda>l. l \<noteq> []) (consumidas s))"
    using assms(2,3) by (simp add: inv_bitacora_def)
  also have "\<dots> \<le> length (consumidas s)" by simp
  also have "\<dots> = size (mset (consumidas s))" by simp
  also have "\<dots> \<le> size (mset (archivo s) + manos s + mset (cola s) + mset (consumidas s))"
    by simp
  also have "\<dots> = size (mset L)" using assms(1,3) by (simp add: inv_lineas_def)
  finally show ?thesis by simp
qed

lemma contada_clave:
  "calcular ahora fecha = Inr e \<Longrightarrow> contada (fecha, ahora) = (clave_de e \<noteq> None)"
  by (simp add: contada_def)

lemma clave_de_cotas: "clave_de e = Some k \<Longrightarrow> 0 \<le> k \<and> k \<le> 130"
  by (auto simp: clave_de_def Let_def split: if_splits)

text \<open>
  The consumer's test and the specification's count agree: the truncated integer part
  of an age that is at least 0 is its floor, and it lies in \<open>[0, 130]\<close> exactly when
  the age is below 131.
\<close>

lemma rango_entero: "0 \<le> e \<Longrightarrow> (0 \<le> \<lfloor>e\<rfloor> \<and> \<lfloor>e\<rfloor> \<le> 130) = (e < 131)" for e :: real
proof -
  assume p: "0 \<le> e"
  have "(\<lfloor>e\<rfloor> \<le> 130) = (\<lfloor>e\<rfloor> < 131)" by auto
  also have "\<dots> = (e < 131)" using floor_less_iff[of e 131] by simp
  finally show ?thesis using p by simp
qed

lemma clave_de_valida: "(clave_de e \<noteq> None) = (0 \<le> e \<and> e < 131)"
proof (cases "0 \<le> e")
  case True
  then show ?thesis using rango_entero[OF True] by (simp add: clave_de_def truncar_def Let_def)
next
  case False
  then show ?thesis by (simp add: clave_de_def)
qed

lemma contada_valida: "contada = edad_valida_en_rango"
  by (rule ext)
    (simp add: contada_def edad_valida_en_rango_def clave_de_valida del: not_None_eq
      split: sum.splits prod.splits)

lemma inv_mapa_poner:
  assumes i: "i < length (hilos s)" and h: "hilos s' = hilos s" and a: "abortado s' = abortado s"
    and m: "mapa s' = mapa s" and b: "bitacora s' = bitacora s"
    and p: "pendiente (hilos s ! i) = 0" "pendiente h = 0"
    and inv: "inv_mapa s"
  shows "inv_mapa (poner i h s')"
proof -
  have np: "n_pendientes (poner i h s') = n_pendientes s"
    using n_pendientes_poner[of i s' h] i h p n_pendientes_hilos[OF h] by simp
  have hp: "\<And>k. h \<noteq> Emplazando k \<and> h \<noteq> Visitando k"
    using p(2) by (auto simp: pendiente_def)
  show ?thesis
    using inv hp unfolding inv_mapa_def
    by (auto simp: np a m b h dest!: set_updateD)
qed

lemma inv_mapa_procesando:
  assumes inv: "inv_mapa s" and i: "i < length (hilos s)" and hi: "hilos s ! i = Procesando fecha"
  shows "inv_mapa (paso_hilo (Procesando fecha) i ok ahora s)"
proof (cases "fecha = []")
  case True
  then show ?thesis using inv i hi
    by (auto intro!: inv_mapa_poner simp: pendiente_def)
next
  case False
  show ?thesis
  proof (cases "calcular ahora fecha")
    case (Inl e)
    then show ?thesis using False by (simp add: inv_mapa_def)
  next
    case (Inr e)
    define s' where "s' = s\<lparr>bitacora := bitacora s @ [(fecha, ahora)],
                   consumidas := consumidas s @ [fecha]\<rparr>"
    define h where "h = (case clave_de e of None \<Rightarrow> Extrayendo | Some clave \<Rightarrow> Emplazando clave)"
    have st: "paso_hilo (Procesando fecha) i ok ahora s = poner i h s'"
      using False Inr by (simp add: s'_def h_def)
    have np: "n_pendientes (poner i h s') = n_pendientes s + pendiente h"
      using n_pendientes_poner[of i s' h] i hi n_pendientes_hilos[of s' s]
      by (simp add: s'_def pendiente_def)
    have ph: "int (pendiente h) = (if contada (fecha, ahora) then 1 else 0)"
      using contada_clave[OF Inr] by (auto simp: h_def pendiente_def split: option.splits)
    have hk: "\<And>k. h = Emplazando k \<Longrightarrow> 0 \<le> k \<and> k \<le> 130"
      using clave_de_cotas[of e] by (auto simp: h_def split: option.splits)
    have hv: "\<And>k. h \<noteq> Visitando k" by (auto simp: h_def split: option.splits)
    show ?thesis
      unfolding st using inv hk hv unfolding inv_mapa_def
      by (auto simp: np[unfolded s'_def] ph s'_def dest!: set_updateD)
  qed
qed

lemma inv_mapa_emplazando:
  assumes inv: "inv_mapa s" and i: "i < length (hilos s)" and hi: "hilos s ! i = Emplazando k"
  shows "inv_mapa (paso_hilo (Emplazando k) i ok ahora s)"
proof -
  define m' where "m' = (case mapa s k of None \<Rightarrow> (mapa s)(k \<mapsto> 0) | Some v \<Rightarrow> mapa s)"
  define s' where "s' = s\<lparr>mapa := m'\<rparr>"
  have st: "paso_hilo (Emplazando k) i ok ahora s = poner i (Visitando k) s'"
    by (simp add: s'_def m'_def)
  have np: "n_pendientes (poner i (Visitando k) s') = n_pendientes s"
    using n_pendientes_poner[of i s' "Visitando k"] i hi n_pendientes_hilos[of s' s]
    by (simp add: s'_def pendiente_def)
  show ?thesis
  proof (cases "abortado s")
    case (Some e)
    then show ?thesis unfolding st by (simp add: inv_mapa_def s'_def)
  next
    case None
    have mem: "Emplazando k \<in> set (hilos s)" using i hi nth_mem[of i "hilos s"] by simp
    then have kr: "0 \<le> k" "k \<le> 130" using inv None by (auto simp: inv_mapa_def)
    have tot: "total m' = total (mapa s)"
      using total_upd[OF kr, of "mapa s" 0] by (auto simp: m'_def cuenta_de_def split: option.splits)
    have vals: "\<And>j v. m' j = Some v \<Longrightarrow> 0 \<le> j \<and> j \<le> 130 \<and> 0 \<le> sint v"
      using inv None kr by (auto simp: inv_mapa_def m'_def split: option.splits if_splits)
    have pres: "\<And>j. mapa s j \<noteq> None \<Longrightarrow> m' j \<noteq> None"
      by (auto simp: m'_def split: option.splits)
    have kk: "m' k \<noteq> None" by (auto simp: m'_def split: option.splits)
    show ?thesis
      unfolding st inv_mapa_def
    proof (intro impI conjI allI)
      show "total (mapa (poner i (Visitando k) s')) + int (n_pendientes (poner i (Visitando k) s'))
          = int (length (filter contada (bitacora (poner i (Visitando k) s'))))"
        using inv None by (simp add: np[unfolded s'_def] tot s'_def inv_mapa_def)
    next
      fix j v assume "mapa (poner i (Visitando k) s') j = Some v"
      then show "0 \<le> j" "j \<le> 130" "0 \<le> sint v" using vals[of j v] by (simp_all add: s'_def)
    next
      fix j assume "Emplazando j \<in> set (hilos (poner i (Visitando k) s'))
          \<or> Visitando j \<in> set (hilos (poner i (Visitando k) s'))"
      then have "j = k \<or> Emplazando j \<in> set (hilos s) \<or> Visitando j \<in> set (hilos s)"
        by (auto simp: s'_def dest!: set_updateD)
      then show "0 \<le> j" "j \<le> 130" using kr inv None by (auto simp: inv_mapa_def)
    next
      fix j assume "Visitando j \<in> set (hilos (poner i (Visitando k) s'))"
      then have "j = k \<or> Visitando j \<in> set (hilos s)" by (auto simp: s'_def dest!: set_updateD)
      then show "mapa (poner i (Visitando k) s') j \<noteq> None"
        using kk pres[of j] inv None by (auto simp: s'_def inv_mapa_def)
    qed
  qed
qed

lemma inv_mapa_visitando:
  assumes inv: "inv_mapa s" and i: "i < length (hilos s)" and hi: "hilos s ! i = Visitando k"
    and cota: "length (bitacora s) < 2147483648"
  shows "inv_mapa (paso_hilo (Visitando k) i ok ahora s)"
proof (cases "abortado s")
  case (Some e)
  then show ?thesis by (simp add: inv_mapa_def)
next
  case None
  have mem: "Visitando k \<in> set (hilos s)" using i hi nth_mem[of i "hilos s"] by simp
  then have kr: "0 \<le> k" "k \<le> 130" using inv None by (auto simp: inv_mapa_def)
  obtain v where v: "mapa s k = Some v" using mem inv None by (auto simp: inv_mapa_def)
  define s' where "s' = s\<lparr>mapa := (mapa s)(k \<mapsto> v + 1)\<rparr>"
  have st: "paso_hilo (Visitando k) i ok ahora s = poner i Extrayendo s'"
    using v by (simp add: s'_def)
  have np: "n_pendientes (poner i Extrayendo s') + 1 = n_pendientes s"
    using n_pendientes_poner[of i s' Extrayendo] i hi n_pendientes_hilos[of s' s]
    by (simp add: s'_def pendiente_def)
  have vals: "\<forall>j w. mapa s j = Some w \<longrightarrow> 0 \<le> sint w" using inv None by (simp add: inv_mapa_def)
  have eq: "total (mapa s) + int (n_pendientes s) = int (length (filter contada (bitacora s)))"
    using inv None by (simp add: inv_mapa_def)
  have "sint v = cuenta_de (mapa s) k" using v by (simp add: cuenta_de_def)
  also have "\<dots> \<le> total (mapa s)" using vals kr by (intro cuenta_le_total) simp_all
  also have "\<dots> = int (length (filter contada (bitacora s))) - int (n_pendientes s)"
    using eq by simp
  also have "\<dots> \<le> int (length (bitacora s)) - 1"
  proof -
    have "length (filter contada (bitacora s)) \<le> length (bitacora s)" by simp
    moreover have "1 \<le> n_pendientes s" using np by simp
    ultimately show ?thesis by linarith
  qed
  finally have sv: "sint v < 2147483647" using cota by simp
  have s1: "sint (v + 1) = sint v + 1" using sv by (rule sint_mas_uno)
  have nn: "0 \<le> sint v" using vals v by simp
  have tot: "total ((mapa s)(k \<mapsto> v + 1)) = total (mapa s) + 1"
    using total_upd[OF kr, of "mapa s" "v + 1"] v s1 by (simp add: cuenta_de_def)
  show ?thesis
    unfolding st inv_mapa_def
  proof (intro impI conjI allI)
    show "total (mapa (poner i Extrayendo s')) + int (n_pendientes (poner i Extrayendo s'))
        = int (length (filter contada (bitacora (poner i Extrayendo s'))))"
      using eq np tot by (simp add: s'_def)
  next
    fix j w assume "mapa (poner i Extrayendo s') j = Some w"
    then show "0 \<le> j" "j \<le> 130" "0 \<le> sint w"
      using inv None kr s1 nn by (auto simp: s'_def inv_mapa_def split: if_splits)
  next
    fix j assume "Emplazando j \<in> set (hilos (poner i Extrayendo s'))
        \<or> Visitando j \<in> set (hilos (poner i Extrayendo s'))"
    then have "Emplazando j \<in> set (hilos s) \<or> Visitando j \<in> set (hilos s)"
      by (auto simp: s'_def dest!: set_updateD)
    then show "0 \<le> j" "j \<le> 130" using inv None by (auto simp: inv_mapa_def)
  next
    fix j assume "Visitando j \<in> set (hilos (poner i Extrayendo s'))"
    then have "Visitando j \<in> set (hilos s)" by (auto simp: s'_def dest!: set_updateD)
    then show "mapa (poner i Extrayendo s') j \<noteq> None"
      using inv None by (auto simp: s'_def inv_mapa_def)
  qed
qed

lemma inv_mapa_paso_hilo:
  assumes inv: "inv_mapa s" and i: "i < length (hilos s)"
    and cota: "length (bitacora s) < 2147483648"
  shows "inv_mapa (paso_hilo (hilos s ! i) i ok ahora s)"
proof (cases "hilos s ! i")
  case Inicio
  then show ?thesis using inv i by (auto intro!: inv_mapa_poner simp: pendiente_def)
next
  case Abriendo
  then show ?thesis using inv i
    by (auto intro!: inv_mapa_poner simp: pendiente_def split: option.splits)
next
  case Leyendo
  then show ?thesis using inv i
    by (cases "archivo s") (auto intro!: inv_mapa_poner simp: pendiente_def)
next
  case (Empujando p)
  then show ?thesis using inv i by (auto intro!: inv_mapa_poner simp: pendiente_def)
next
  case (Cediendo_productor p)
  then show ?thesis using inv i by (auto intro!: inv_mapa_poner simp: pendiente_def)
next
  case Extrayendo
  then show ?thesis using inv i
    by (cases "cola s") (auto intro!: inv_mapa_poner simp: pendiente_def)
next
  case (Procesando fecha)
  then show ?thesis using inv_mapa_procesando[OF inv i] by simp
next
  case (Emplazando k)
  then show ?thesis using inv_mapa_emplazando[OF inv i] by simp
next
  case (Visitando k)
  then show ?thesis using inv_mapa_visitando[OF inv i _ cota] by simp
next
  case Mirando_terminado
  then show ?thesis using inv i by (auto intro!: inv_mapa_poner simp: pendiente_def)
next
  case Mirando_vacia
  then show ?thesis using inv i by (auto intro!: inv_mapa_poner simp: pendiente_def)
next
  case Cediendo
  then show ?thesis using inv i by (auto intro!: inv_mapa_poner simp: pendiente_def)
next
  case Salido
  then show ?thesis using inv by simp
qed

lemma inv_cuentas_paso:
  assumes L: "length L < 2147483648" and inv: "inv_cuentas L s"
  shows "inv_cuentas L (paso ev s)"
proof (cases ev)
  case (fields i ok ahora)
  show ?thesis
  proof (cases "abortado s = None \<and> i < length (hilos s)")
    case True
    have "length (bitacora s) \<le> length L"
      using inv True by (intro cota_bitacora) (simp_all add: inv_cuentas_def)
    then have c: "length (bitacora s) < 2147483648" using L by simp
    show ?thesis
      using inv True c
      by (simp add: fields paso_def inv_cuentas_def inv_lineas_paso_hilo inv_bitacora_paso_hilo
          inv_mapa_paso_hilo)
  next
    case False
    then show ?thesis using inv by (auto simp: fields paso_def)
  qed
qed

lemma inv_cuentas_ejecutar:
  "length L < 2147483648 \<Longrightarrow> inv_cuentas L s \<Longrightarrow> inv_cuentas L (ejecutar evs s)"
  by (induction evs arbitrary: s) (simp_all add: inv_cuentas_paso)

lemma concat_replicate_Nil: "concat (replicate n []) = []"
  by (induction n) simp_all

lemma total_vacio: "total Map.empty = 0"
  by (simp add: total_def cuenta_de_def)

lemma inv_cuentas_inicial: "inv_cuentas (lineas_de f) (inicial n r f)"
  by (simp add: inv_cuentas_def inv_lineas_def inv_bitacora_def inv_mapa_def inicial_def manos_def
      n_pendientes_def en_mano_def pendiente_def concat_replicate_Nil total_vacio sum_list_replicate)

lemma bitacora_paso_hilo:
  "bitacora (paso_hilo h i ok ahora s) = bitacora s
   \<or> (\<exists>l. bitacora (paso_hilo h i ok ahora s) = bitacora s @ [(l, ahora)])"
  by (cases h) (auto split: option.splits list.splits sum.splits)

lemma reloj_fijo_paso:
  assumes "list_all (\<lambda>c. snd c = hoy) (bitacora s)" "snd (snd ev) = hoy"
  shows "list_all (\<lambda>c. snd c = hoy) (bitacora (paso ev s))"
proof (cases ev)
  case (fields i ok ahora)
  then have a: "ahora = hoy" using assms(2) by simp
  show ?thesis
    using assms(1) bitacora_paso_hilo[of "hilos s ! i" i ok ahora s]
    by (auto simp: fields paso_def a)
qed

lemma reloj_fijo_ejecutar:
  "list_all (\<lambda>c. snd c = hoy) (bitacora s) \<Longrightarrow> reloj_fijo hoy evs \<Longrightarrow>
   list_all (\<lambda>c. snd c = hoy) (bitacora (ejecutar evs s))"
  by (induction evs arbitrary: s) (simp_all add: reloj_fijo_def reloj_fijo_paso)

lemma hecho_manos:
  assumes "list_all (\<lambda>h. h = Salido) hs"
  shows "concat (map en_mano hs) = []" "sum_list (map pendiente hs) = 0"
  using assms by (induction hs) (simp_all add: en_mano_def pendiente_def)

lemma filtro_reloj_fijo:
  assumes "list_all (\<lambda>c. snd c = hoy) b"
  shows "length (filter contada b) = size (filter_mset (\<lambda>l. contada (l, hoy)) (mset (map fst b)))"
  using assms by (induction b) auto

lemma calcular_ejemplo: "calcular (reloj 2024 11 1 0) ''2004-11-01'' = Inr edad_ejemplo"
  by (simp add: edad_ejemplo_def calcular_def reloj_def evaluar_parser evaluar_dias)

lemma clave_de_ejemplo: "clave_de edad_ejemplo = Some 20"
proof -
  have e: "edad_ejemplo = real_of_int 73050000 / real_of_int 3652425"
    by (simp add: edad_ejemplo_def)
  have "\<lfloor>real_of_int 73050000 / real_of_int 3652425\<rfloor> = 73050000 div 3652425"
    by (rule floor_divide_of_int_eq)
  then have f: "\<lfloor>edad_ejemplo\<rfloor> = 20" unfolding e by simp
  have p: "0 \<le> edad_ejemplo" by (simp add: edad_ejemplo_def)
  show ?thesis using f p by (simp add: clave_de_def truncar_def)
qed

text \<open>
  A text born twenty years before the clock's date is counted by the specification; a
  birth in the future (a negative age), an age above 130 and a text that the parser
  rejects are not.
\<close>

lemma edad_valida_en_rango_ejemplos:
  "edad_valida_en_rango (''2004-11-01'', reloj 2024 11 1 0)"
  "\<not> edad_valida_en_rango (''2030-01-01'', reloj 2024 11 1 0)"
  "\<not> edad_valida_en_rango (''1800-01-01'', reloj 2024 11 1 0)"
  "\<not> edad_valida_en_rango (''not-a-date'', reloj 2024 11 1 0)"
  by (simp_all add: edad_valida_en_rango_def calcular_def reloj_def evaluar_parser evaluar_dias)

text \<open>
  Claim C1. For every file, every number of threads and every interleaving of their
  steps: when the region is over (every thread has left its loop and no exception has
  terminated the program), the counts of the map add up to the number of calls of
  \<open>calcular\<close> that gave a valid age, at least 0, whose integer part lies in \<open>[0, 130]\<close>
  (\<open>edad_valida_en_rango\<close>, which does not mention the consumer's test); there was
  exactly one call for each line of the file that is not empty; and the map has no
  key outside 0 to 130. When every call read the same clock, the total is the number of
  lines of the file with such an age on that date. No increment is lost and no line is
  counted twice. The counters are \<^verbatim>\<open>int\<close>: the file has fewer than \<open>2^31\<close> lines, the
  bound below which no counter can overflow (a signed overflow is undefined in C++).
\<close>

theorem histograma_conserva:
  "length (lineas_de f) < 2147483648 \<and> hecho (ejecutar evs (inicial n r f)) \<longrightarrow>
     (let s = ejecutar evs (inicial n r f) in
        total (mapa s) = int (length (filter edad_valida_en_rango (bitacora s)))
      \<and> mset (map fst (bitacora s)) = mset (filter (\<lambda>l. l \<noteq> []) (lineas_de f))
      \<and> (\<forall>k v. mapa s k = Some v \<longrightarrow> 0 \<le> k \<and> k \<le> 130)
      \<and> (reloj_fijo hoy evs \<longrightarrow>
           total (mapa s)
             = int (length (filter (\<lambda>l. l \<noteq> [] \<and> edad_valida_en_rango (l, hoy))
                 (lineas_de f)))))"
proof
  assume h: "length (lineas_de f) < 2147483648 \<and> hecho (ejecutar evs (inicial n r f))"
  define s where "s = ejecutar evs (inicial n r f)"
  have hecho: "hecho s" using h by (simp add: s_def)
  then have a: "abortado s = None" and ne: "hilos s \<noteq> []"
    and all: "list_all (\<lambda>h. h = Salido) (hilos s)" by (simp_all add: hecho_def)
  have sal: "Salido \<in> set (hilos s)"
    using ne all by (cases "hilos s") simp_all
  have ip: "inv_protocolo s" unfolding s_def by (intro inv_protocolo_ejecutar inv_protocolo_inicial)
  have ic: "inv_cuentas (lineas_de f) s"
    unfolding s_def using h by (intro inv_cuentas_ejecutar inv_cuentas_inicial) simp
  have vac: "cola s = []" "archivo s = []" using ip sal by (simp_all add: inv_protocolo_def)
  have man: "manos s = {#}" "n_pendientes s = 0"
    using hecho_manos[OF all] by (simp_all add: manos_def n_pendientes_def)
  have cons: "mset (consumidas s) = mset (lineas_de f)"
    using ic a vac man by (simp add: inv_cuentas_def inv_lineas_def)
  have bit: "map fst (bitacora s) = filter (\<lambda>l. l \<noteq> []) (consumidas s)"
    using ic a by (simp add: inv_cuentas_def inv_bitacora_def)
  have t1: "total (mapa s) = int (length (filter contada (bitacora s)))"
    using ic a man by (simp add: inv_cuentas_def inv_mapa_def)
  have t2: "mset (map fst (bitacora s)) = mset (filter (\<lambda>l. l \<noteq> []) (lineas_de f))"
    unfolding bit using cons by (simp only: mset_filter)
  have t3: "\<forall>k v. mapa s k = Some v \<longrightarrow> 0 \<le> k \<and> k \<le> 130"
    using ic a by (simp add: inv_cuentas_def inv_mapa_def)
  have t4: "reloj_fijo hoy evs \<longrightarrow>
      total (mapa s) = int (length (filter (\<lambda>l. l \<noteq> [] \<and> contada (l, hoy)) (lineas_de f)))"
  proof
    assume rf: "reloj_fijo hoy evs"
    have "list_all (\<lambda>c. snd c = hoy) (bitacora s)"
      unfolding s_def using rf by (intro reloj_fijo_ejecutar) (simp_all add: inicial_def)
    then have "length (filter contada (bitacora s))
        = size (filter_mset (\<lambda>l. contada (l, hoy)) (mset (map fst (bitacora s))))"
      by (rule filtro_reloj_fijo)
    also have "\<dots> = size (filter_mset (\<lambda>l. contada (l, hoy))
        (mset (filter (\<lambda>l. l \<noteq> []) (lineas_de f))))"
      by (simp only: t2)
    also have "\<dots> = length (filter (\<lambda>l. contada (l, hoy)) (filter (\<lambda>l. l \<noteq> []) (lineas_de f)))"
      by (simp only: mset_filter[symmetric] size_mset)
    also have "\<dots> = length (filter (\<lambda>l. l \<noteq> [] \<and> contada (l, hoy)) (lineas_de f))"
      by (simp add: conj_commute)
    finally show "total (mapa s)
        = int (length (filter (\<lambda>l. l \<noteq> [] \<and> contada (l, hoy)) (lineas_de f)))"
      using t1 by simp
  qed
  show "let s = ejecutar evs (inicial n r f) in
        total (mapa s) = int (length (filter edad_valida_en_rango (bitacora s)))
      \<and> mset (map fst (bitacora s)) = mset (filter (\<lambda>l. l \<noteq> []) (lineas_de f))
      \<and> (\<forall>k v. mapa s k = Some v \<longrightarrow> 0 \<le> k \<and> k \<le> 130)
      \<and> (reloj_fijo hoy evs \<longrightarrow>
           total (mapa s)
             = int (length (filter (\<lambda>l. l \<noteq> [] \<and> edad_valida_en_rango (l, hoy))
                 (lineas_de f))))"
    unfolding Let_def s_def[symmetric] contada_valida[symmetric] using t1 t2 t3 t4 by blast
qed

lemma corrida_dos_estado:
  "hilos (ejecutar corrida_dos (inicial 2 ''datos.csv'' (Some [''2004-11-01'']))) = [Salido, Salido]"
  "abortado (ejecutar corrida_dos (inicial 2 ''datos.csv'' (Some [''2004-11-01'']))) = None"
  "mapa (ejecutar corrida_dos (inicial 2 ''datos.csv'' (Some [''2004-11-01'']))) 20 = Some 1"
  by (simp_all add: corrida_dos_def paso_def inicial_def lineas_de_def poner_def
      calcular_ejemplo clave_de_ejemplo numeral_2_eq_2)

theorem histograma_conserva_witness:
  "length (lineas_de (Some [''2004-11-01''])) < 2147483648
   \<and> hecho (ejecutar corrida_dos (inicial 2 ''datos.csv'' (Some [''2004-11-01''])))
   \<and> reloj_fijo (reloj 2024 11 1 0) corrida_dos
   \<and> total (mapa (ejecutar corrida_dos (inicial 2 ''datos.csv'' (Some [''2004-11-01''])))) = 1
   \<and> mapa (ejecutar corrida_dos (inicial 2 ''datos.csv'' (Some [''2004-11-01'']))) 20 = Some 1"
proof -
  have l: "length (lineas_de (Some [''2004-11-01''])) < 2147483648" by (simp add: lineas_de_def)
  have h: "hecho (ejecutar corrida_dos (inicial 2 ''datos.csv'' (Some [''2004-11-01''])))"
    by (simp add: hecho_def corrida_dos_estado)
  have rf: "reloj_fijo (reloj 2024 11 1 0) corrida_dos"
    by (simp add: reloj_fijo_def corrida_dos_def)
  have c: "int (length (filter (\<lambda>l. l \<noteq> [] \<and> edad_valida_en_rango (l, reloj 2024 11 1 0))
      (lineas_de (Some [''2004-11-01''])))) = 1"
    using edad_valida_en_rango_ejemplos(1) by (simp add: lineas_de_def)
  have "reloj_fijo (reloj 2024 11 1 0) corrida_dos \<longrightarrow>
      total (mapa (ejecutar corrida_dos (inicial 2 ''datos.csv'' (Some [''2004-11-01'']))))
        = int (length (filter (\<lambda>l. l \<noteq> [] \<and> edad_valida_en_rango (l, reloj 2024 11 1 0))
            (lineas_de (Some [''2004-11-01'']))))"
    using histograma_conserva[of "Some [''2004-11-01'']" corrida_dos 2 "''datos.csv''"
        "reloj 2024 11 1 0", unfolded Let_def] l h
    by blast
  then have "total (mapa (ejecutar corrida_dos (inicial 2 ''datos.csv'' (Some [''2004-11-01''])))) = 1"
    using rf c by simp
  then show ?thesis using l h rf corrida_dos_estado(3) by blast
qed

section \<open>The exit of the program\<close>

lemma list_all_update:
  "list_all P xs \<Longrightarrow> P y \<Longrightarrow> list_all P (xs[i := y])"
  by (auto simp: list_all_iff dest!: set_updateD)

lemma inv_sin_fichero_paso_hilo:
  assumes inv: "inv_sin_fichero s" and i: "i < length (hilos s)" and ip: "inv_protocolo s"
  shows "inv_sin_fichero (paso_hilo (hilos s ! i) i ok ahora s)"
proof -
  have mem: "hilos s ! i \<in> set (hilos s)" using i by simp
  have le: "productor (hilos s ! i) \<le> n_productores s" using i by (rule productor_le)
  have st: "hilos s ! i = Inicio \<or> hilos s ! i = Abriendo \<or> hilos s ! i = Extrayendo
      \<or> hilos s ! i = Mirando_terminado \<or> hilos s ! i = Mirando_vacia \<or> hilos s ! i = Cediendo
      \<or> hilos s ! i = Salido"
    using inv mem by (auto simp: inv_sin_fichero_def list_all_iff)
  then show ?thesis
  proof (elim disjE)
    assume h: "hilos s ! i = Abriendo"
    have "n_productores s \<le> 1" using ip by (simp add: inv_protocolo_def)
    then have "n_productores (poner i Extrayendo s) = 0"
      using n_productores_poner_eq[of i s Extrayendo] i h le by (simp add: productor_def)
    then have "Abriendo \<notin> set (hilos (poner i Extrayendo s))"
      using sin_productores[of "poner i Extrayendo s" Abriendo] by (auto simp: productor_def)
    moreover have "single_tomado s"
      using ip le h by (auto simp: inv_protocolo_def productor_def)
    moreover have "\<not> terminado s" using inv mem h by (auto simp: inv_sin_fichero_def)
    ultimately show ?thesis using inv h
      by (auto simp: inv_sin_fichero_def intro!: list_all_update dest!: set_updateD)
  qed (use inv mem in \<open>auto simp: inv_sin_fichero_def intro!: list_all_update dest!: set_updateD\<close>)
qed

lemma inv_sin_fichero_paso:
  "inv_sin_fichero s \<Longrightarrow> inv_protocolo s \<Longrightarrow> inv_sin_fichero (paso ev s)"
  by (cases ev) (simp add: paso_def inv_sin_fichero_paso_hilo)

lemma inv_sin_fichero_ejecutar:
  "inv_sin_fichero s \<Longrightarrow> inv_protocolo s \<Longrightarrow> inv_sin_fichero (ejecutar evs s)"
  by (induction evs arbitrary: s) (simp_all add: inv_sin_fichero_paso inv_protocolo_paso)

lemma inv_sin_fichero_inicial: "inv_sin_fichero (inicial n r None)"
  by (simp add: inv_sin_fichero_def inicial_def lineas_de_def list_all_iff)

lemma ruta_paso_hilo [simp]: "ruta (paso_hilo h i ok ahora s) = ruta s"
  by (cases h) (auto split: option.splits list.splits sum.splits)

lemma ruta_paso [simp]: "ruta (paso ev s) = ruta s"
  by (cases ev) (simp add: paso_def)

lemma ruta_ejecutar [simp]: "ruta (ejecutar evs s) = ruta s"
  by (induction evs arbitrary: s) simp_all

lemma emitir_vacio: "emitir Map.empty = []"
  by (simp add: emitir_def)

lemma main_sin_argumentos:
  "main programa [] abrir n evs
     = Some \<lparr>salida = [Creditos programa], errores = [], codigo = Exit_success\<rparr>"
  by (simp add: main_def)

lemma main_sin_fichero:
  assumes "abrir r = None" "main programa (r # args) abrir n evs = Some res"
  shows "res = \<lparr>salida = [], errores = [''No se pudo abrir: '' @ r], codigo = Exit_success\<rparr>"
proof -
  define s where "s = ejecutar evs (inicial n r None)"
  have inv: "inv_sin_fichero s"
    unfolding s_def by (intro inv_sin_fichero_ejecutar inv_sin_fichero_inicial inv_protocolo_inicial)
  have r: "ruta s = r" by (simp add: s_def inicial_def)
  have a: "abortado s = None" "mapa s = Map.empty" using inv by (simp_all add: inv_sin_fichero_def)
  have h: "hecho s" and res: "res = \<lparr>salida = emitir (mapa s), errores = cerr s, codigo = Exit_success\<rparr>"
    using assms a by (auto simp: main_def Let_def s_def[symmetric] split: if_splits)
  have "Salido \<in> set (hilos s)" using h by (cases "hilos s") (simp_all add: hecho_def)
  then have "terminado s" using inv by (simp add: inv_sin_fichero_def)
  then have "cerr s = [''No se pudo abrir: '' @ r]" using inv r by (simp add: inv_sin_fichero_def)
  then show ?thesis using res a by (simp add: emitir_vacio)
qed

text \<open>
  Claim C9 says that every execution path exits with a success code, lines that do not
  parse included. They do not: \<open>calcular\<close> throws on such a line, no \<^verbatim>\<open>try\<close> block of
  \<^verbatim>\<open>main\<close> catches the exception, and the program is terminated. The run below is the
  one thread of \<^verbatim>\<open>OMP_NUM_THREADS=1\<close> on a file whose only line is \<open>not-a-date\<close>.
\<close>

theorem main_linea_invalida:
  "main ''programa'' [''datos.csv''] (\<lambda>r. Some [''not-a-date'']) 1
      (replicate 7 (0, True, reloj 2024 11 1 0))
     = Some \<lparr>salida = [], errores = [], codigo = Terminate (Invalid_argument Formato_invalido)\<rparr>"
proof -
  have c: "calcular (reloj 2024 11 1 0) ''not-a-date'' = Inl (Invalid_argument Formato_invalido)"
    by (simp add: calcular_def parsear_fecha_iso_def)
  show ?thesis
    by (simp add: main_def Let_def numeral_eq_Suc paso_def inicial_def lineas_de_def poner_def c)
qed

theorem main_linea_invalida_witness:
  "main ''programa'' [''datos.csv''] (\<lambda>r. Some [''not-a-date'']) 1
      (replicate 7 (0, True, reloj 2024 11 1 0))
     \<noteq> Some \<lparr>salida = [], errores = [], codigo = Exit_success\<rparr>"
  using main_linea_invalida by simp

section \<open>The tasks of the second program\<close>

lemma mset_quitar: "j < length xs \<Longrightarrow> add_mset (xs ! j) (mset (quitar j xs)) = mset xs"
proof -
  assume j: "j < length xs"
  have "xs = take j xs @ xs ! j # drop (Suc j) xs" using j by (simp add: id_take_nth_drop)
  then have "mset xs = mset (take j xs @ xs ! j # drop (Suc j) xs)" by simp
  then show ?thesis by (simp add: quitar_def)
qed

lemma length_quitar: "j < length xs \<Longrightarrow> Suc (length (quitar j xs)) = length xs"
  by (simp add: quitar_def)

lemma list_all_quitar: "list_all P xs \<Longrightarrow> list_all P (quitar j xs)"
  by (auto simp: quitar_def list_all_iff dest: in_set_takeD in_set_dropD)

lemma total2_update:
  "k < length h \<Longrightarrow> total2 (h[k := v]) = total2 h - sint (h ! k) + sint v"
  unfolding total2_def
proof (induction h arbitrary: k)
  case Nil
  then show ?case by simp
next
  case (Cons a h)
  then show ?case by (cases k) simp_all
qed

lemma cuenta_le_total2:
  "list_all (\<lambda>v. 0 \<le> sint v) h \<Longrightarrow> k < length h \<Longrightarrow> sint (h ! k) \<le> total2 h"
  unfolding total2_def
proof (induction h arbitrary: k)
  case Nil
  then show ?case by simp
next
  case (Cons a h)
  have nn: "0 \<le> sum_list (map sint h)"
    using Cons.prems(1) by (intro sum_list_nonneg) (auto simp: list_all_iff)
  show ?case
  proof (cases k)
    case 0
    then show ?thesis using nn by simp
  next
    case (Suc k')
    then have "sint (h ! k') \<le> sum_list (map sint h)" using Cons by simp
    then show ?thesis using Suc Cons.prems(1) by simp
  qed
qed

lemma total2_inicial: "total2 (replicate n 0) = 0"
  by (simp add: total2_def sum_list_replicate)

lemma paso2_abortado: "abortado2 s = Some e \<Longrightarrow> paso2 ev s = s"
  by (simp add: paso2_def)

lemma cota_bitacora2:
  assumes "inv2 L s" "abortado2 s = None"
  shows "length (filter contada (bitacora2 s)) \<le> length L"
proof -
  have "length (filter contada (bitacora2 s)) \<le> length (bitacora2 s)" by simp
  also have "\<dots> = length (map fst (bitacora2 s))" by simp
  also have "\<dots> = length (filter (\<lambda>l. l \<noteq> []) (consumidas2 s))"
    using assms by (simp add: inv2_def)
  also have "\<dots> \<le> length (consumidas2 s)" by simp
  also have "\<dots> = size (mset (consumidas2 s))" by simp
  also have "\<dots> \<le> size (mset (archivo2 s) + mset (tareas s) + mset (consumidas2 s))"
    by simp
  also have "\<dots> = size (mset L)" using assms by (simp add: inv2_def)
  finally show ?thesis by simp
qed

lemma inv2_tomar:
  assumes i: "inv2 L s" and a: "abortado2 s = None" and j: "j < length (tareas s)"
  shows "inv2 L (tomar j ahora s)"
proof -
  have m: "add_mset (tareas s ! j) (mset (quitar j (tareas s))) = mset (tareas s)"
    using j by (rule mset_quitar)
  have l: "mset (archivo2 s) + mset (tareas s) + mset (consumidas2 s) = mset L"
    and b: "map fst (bitacora2 s) = filter (\<lambda>l. l \<noteq> []) (consumidas2 s)"
    and t: "total2 (histograma s) + int (length (sumas s))
              = int (length (filter contada (bitacora2 s)))"
    and r: "length (histograma s) = 131" "list_all (\<lambda>v. 0 \<le> sint v) (histograma s)"
      "list_all (\<lambda>k. k < 131) (sumas s)"
    using i a by (simp_all add: inv2_def)
  have l': "mset (archivo2 s) + mset (quitar j (tareas s))
              + mset (consumidas2 s @ [tareas s ! j]) = mset L"
    using l m[symmetric] by simp
  show ?thesis
  proof (cases "tareas s ! j = []")
    case True
    then show ?thesis using l' b t r a True by (simp add: tomar_def inv2_def Let_def)
  next
    case False
    show ?thesis
    proof (cases "calcular ahora (tareas s ! j)")
      case (Inl e)
      then show ?thesis using False by (simp add: tomar_def inv2_def Let_def)
    next
      case (Inr e)
      note er = contada_clave[OF Inr]
      show ?thesis
      proof (cases "clave_de e")
        case None
        then show ?thesis using l' b t r a False Inr er
          by (simp add: tomar_def inv2_def Let_def)
      next
        case (Some k)
        have "0 \<le> k \<and> k \<le> 130" using Some by (rule clave_de_cotas)
        then have "nat k < 131" by linarith
        then show ?thesis using l' b t r a False Inr er Some
          by (simp add: tomar_def inv2_def Let_def)
      qed
    qed
  qed
qed

lemma inv2_sumar:
  assumes i: "inv2 L s" and a: "abortado2 s = None" and j: "j < length (sumas s)"
    and c: "length L < 2147483648"
  shows "inv2 L (s\<lparr>sumas := quitar j (sumas s),
     histograma := (histograma s)[sumas s ! j := histograma s ! (sumas s ! j) + 1]\<rparr>)"
proof -
  let ?k = "sumas s ! j"
  let ?h = "histograma s"
  have l: "mset (archivo2 s) + mset (tareas s) + mset (consumidas2 s) = mset L"
    and b: "map fst (bitacora2 s) = filter (\<lambda>l. l \<noteq> []) (consumidas2 s)"
    and t: "total2 ?h + int (length (sumas s)) = int (length (filter contada (bitacora2 s)))"
    and r: "length ?h = 131" "list_all (\<lambda>v. 0 \<le> sint v) ?h" "list_all (\<lambda>k. k < 131) (sumas s)"
    using i a by (simp_all add: inv2_def)
  have k: "?k < length ?h" using r(1,3) j by (simp add: list_all_length)
  have nn: "0 \<le> sint (?h ! ?k)" using r(2) k by (simp add: list_all_length)
  have "sint (?h ! ?k) \<le> total2 ?h" using r(2) k by (rule cuenta_le_total2)
  moreover have "int (length (filter contada (bitacora2 s))) \<le> int (length L)"
    using cota_bitacora2[OF i a] by simp
  moreover have "1 \<le> int (length (sumas s))" using j by simp
  ultimately have "sint (?h ! ?k) < 2147483647" using t c by simp
  then have s1: "sint (?h ! ?k + 1) = sint (?h ! ?k) + 1" by (rule sint_mas_uno)
  have t': "total2 (?h[?k := ?h ! ?k + 1]) = total2 ?h + 1"
    using total2_update[OF k, of "?h ! ?k + 1"] s1 by simp
  have q: "Suc (length (quitar j (sumas s))) = length (sumas s)" using j by (rule length_quitar)
  have t'': "total2 (?h[?k := ?h ! ?k + 1]) + int (length (quitar j (sumas s)))
      = int (length (filter contada (bitacora2 s)))"
    using t t' q by simp
  have r2: "list_all (\<lambda>v. 0 \<le> sint v) (?h[?k := ?h ! ?k + 1])"
    using r(2) s1 nn by (intro list_all_update) simp_all
  have r3: "list_all (\<lambda>k. k < 131) (quitar j (sumas s))" using r(3) by (rule list_all_quitar)
  show ?thesis using l b t'' r(1) r2 r3 by (simp add: inv2_def)
qed

lemma inv2_paso2:
  assumes i: "inv2 L s" and c: "length L < 2147483648"
  shows "inv2 L (paso2 ev s)"
proof (cases "abortado2 s = None")
  case False
  then obtain e where "abortado2 s = Some e" by auto
  then show ?thesis using i by (simp add: paso2_abortado)
next
  case a: True
  show ?thesis
  proof (cases ev)
    case Abrir
    then show ?thesis using i a by (simp add: paso2_def inv2_def split: option.splits)
  next
    case Crear
    then show ?thesis using i a by (auto simp: paso2_def inv2_def split: list.splits)
  next
    case (Tomar j ahora)
    then show ?thesis using i a inv2_tomar[OF i a] by (simp add: paso2_def)
  next
    case (Sumar j)
    then show ?thesis using i a inv2_sumar[OF i a _ c] by (simp add: paso2_def)
  qed
qed

lemma inv2_ejecutar2:
  "inv2 L s \<Longrightarrow> length L < 2147483648 \<Longrightarrow> inv2 L (ejecutar2 evs s)"
  unfolding ejecutar2_def by (induction evs arbitrary: s) (simp_all add: inv2_paso2)

lemma inv2_inicial2: "inv2 (lineas_de f) (inicial2 r f)"
  by (simp add: inv2_def inicial2_def total2_inicial list_all_length)

text \<open>
  The second program conserves the counts as the first one does: when every task has
  finished, the counters add up to the number of calls of \<open>calcular\<close> that gave a valid
  age with its integer part in \<open>[0, 130]\<close>, and there was one call for each line of the
  file that is not empty, however the tasks were interleaved.
\<close>

lemma histograma_tareas_conserva:
  assumes "length (lineas_de f) < 2147483648" and "hecho2 (ejecutar2 evs (inicial2 r f))"
  shows "total2 (histograma (ejecutar2 evs (inicial2 r f)))
           = int (length (filter edad_valida_en_rango (bitacora2 (ejecutar2 evs (inicial2 r f)))))"
    and "mset (map fst (bitacora2 (ejecutar2 evs (inicial2 r f))))
           = mset (filter (\<lambda>l. l \<noteq> []) (lineas_de f))"
proof -
  let ?s = "ejecutar2 evs (inicial2 r f)"
  have i: "inv2 (lineas_de f) ?s"
    using inv2_inicial2 assms(1) by (rule inv2_ejecutar2)
  have h: "abortado2 ?s = None" "archivo2 ?s = []" "tareas ?s = []" "sumas ?s = []"
    using assms(2) by (simp_all add: hecho2_def)
  show "total2 (histograma ?s) = int (length (filter edad_valida_en_rango (bitacora2 ?s)))"
    unfolding contada_valida[symmetric] using i h by (simp add: inv2_def)
  have "mset (consumidas2 ?s) = mset (lineas_de f)" using i h by (simp add: inv2_def)
  then have "mset (filter (\<lambda>l. l \<noteq> []) (consumidas2 ?s))
      = mset (filter (\<lambda>l. l \<noteq> []) (lineas_de f))"
    by (metis mset_filter)
  then show "mset (map fst (bitacora2 ?s)) = mset (filter (\<lambda>l. l \<noteq> []) (lineas_de f))"
    using i h by (simp add: inv2_def)
qed

text \<open>
  A run of the second program on a file of three lines, one of them empty: two tasks are
  in progress at once, and both increments reach the counter of the age 20.
\<close>

lemma ejecutar2_ejemplo:
  "(let s = ejecutar2
       [Abrir, Crear, Crear, Crear, Tomar 2 (reloj 2024 11 1 0), Tomar 0 (reloj 2024 11 1 0),
        Tomar 0 (reloj 2024 11 1 0), Sumar 1, Sumar 0]
       (inicial2 ''datos.csv'' (Some [''2004-11-01'', [], ''2004-11-01'']))
    in hecho2 s \<and> histograma s = (replicate 131 0)[20 := 2] \<and> total2 (histograma s) = 2)"
proof -
  have n: "nat 20 = 20" by simp
  have t: "total2 ((replicate 131 0)[20 := 2]) = 2"
    using total2_update[of 20 "replicate 131 0" 2] by (simp add: total2_inicial)
  show ?thesis
    by (simp add: ejecutar2_def paso2_def inicial2_def lineas_de_def tomar_def quitar_def
        calcular_ejemplo clave_de_ejemplo hecho2_def t Let_def)
qed

text \<open>
  A line that \<open>calcular\<close> rejects ends the second program as it ends the first one: the
  task has no handler either.
\<close>

lemma main2_linea_invalida:
  "main2 ''programa'' [''datos.csv''] (\<lambda>r. Some [''not-a-date''])
     [Abrir, Crear, Tomar 0 (reloj 2024 11 1 0)]
   = Some \<lparr>salida = [], errores = [], codigo = Terminate (Invalid_argument Formato_invalido)\<rparr>"
  by (simp add: main2_def ejecutar2_def paso2_def inicial2_def lineas_de_def tomar_def quitar_def
      calcular_def parsear_fecha_iso_def Let_def)

end
